theory Spec2Isabelle
  imports Main "HOL-Library.Multiset"
begin

section \<open>Tickets and the ticket store\<close>

text \<open>
  The types of \<^verbatim>\<open>types/index.ts\<close>. A \<^verbatim>\<open>Date\<close> is its millisecond time stamp
  (an \<open>int\<close>); an optional field is an \<open>option\<close>. The field \<^verbatim>\<open>id\<close> is named
  \<open>ticket_id\<close> here, since \<open>id\<close> is the identity function of HOL.
\<close>

datatype TicketStatus = PENDING | BRANCHING | WORKING | STOPPED | CLOSED | ERROR

record Ticket =
  ticket_id :: string
  name :: string
  description :: string
  status :: TicketStatus
  createdAt :: int
  startedAt :: "int option"
  stoppedAt :: "int option"
  closedAt :: "int option"
  branch :: "string option"
  error :: "string option"
  summary :: "string option"

record TicketConfig =
  tickets :: "Ticket list"
  lastId :: int

text \<open>
  \<^verbatim>\<open>Partial<Ticket>\<close>, as the callers of \<^verbatim>\<open>Storage.updateTicket\<close> build it: a
  field that is \<open>None\<close> is absent from the object literal.
\<close>

record TicketUpdates =
  u_description :: "string option"
  u_status :: "TicketStatus option"
  u_startedAt :: "int option"
  u_stoppedAt :: "int option"
  u_closedAt :: "int option"
  u_branch :: "string option"
  u_error :: "string option"
  u_summary :: "string option"

definition no_updates :: TicketUpdates where
  "no_updates = \<lparr>u_description = None, u_status = None, u_startedAt = None,
     u_stoppedAt = None, u_closedAt = None, u_branch = None, u_error = None,
     u_summary = None\<rparr>"

definition or_else :: "'a option \<Rightarrow> 'a option \<Rightarrow> 'a option" where
  "or_else new old = (case new of None \<Rightarrow> old | Some v \<Rightarrow> Some v)"

text \<open>The object spread \<^verbatim>\<open>{ ...ticket, ...updates }\<close>.\<close>

definition spread :: "Ticket \<Rightarrow> TicketUpdates \<Rightarrow> Ticket" where
  "spread t u = t\<lparr>
     description := (case u_description u of None \<Rightarrow> description t | Some d \<Rightarrow> d),
     status := (case u_status u of None \<Rightarrow> status t | Some s \<Rightarrow> s),
     startedAt := or_else (u_startedAt u) (startedAt t),
     stoppedAt := or_else (u_stoppedAt u) (stoppedAt t),
     closedAt := or_else (u_closedAt u) (closedAt t),
     branch := or_else (u_branch u) (branch t),
     error := or_else (u_error u) (error t),
     summary := or_else (u_summary u) (summary t)\<rparr>"

text \<open>
  The file \<^verbatim>\<open>tickets.json\<close>: \<open>None\<close> when it does not exist, otherwise the
  document it holds.
\<close>

type_synonym store_file = "TicketConfig option"

definition initialConfig :: TicketConfig where
  "initialConfig = \<lparr>tickets = [], lastId = 0\<rparr>"

definition ensureConfigExists :: "store_file \<Rightarrow> store_file" where
  "ensureConfigExists f = (case f of None \<Rightarrow> Some initialConfig | Some c \<Rightarrow> Some c)"

definition getConfig :: "store_file \<Rightarrow> TicketConfig \<times> store_file" where
  "getConfig f = (case ensureConfigExists f of
       Some c \<Rightarrow> (c, Some c)
     | None \<Rightarrow> (initialConfig, None))"

definition saveConfig :: "TicketConfig \<Rightarrow> store_file \<Rightarrow> store_file" where
  "saveConfig config f = Some config"

definition getAllTickets :: "store_file \<Rightarrow> Ticket list \<times> store_file" where
  "getAllTickets f = (case getConfig f of (c, f') \<Rightarrow> (tickets c, f'))"

text \<open>
  \<^verbatim>\<open>String.prototype.toLowerCase\<close>. A string of the model is a list of code units
  below 256. Among those the upper-case letters are \<open>A\<close> to \<open>Z\<close> and U+00C0 to U+00DE
  without the multiplication sign U+00D7; each is mapped to the code unit 32 above it,
  and every other code unit is left as it is.
\<close>

definition upper_letters :: "char list" where
  "upper_letters = ''ABCDEFGHIJKLMNOPQRSTUVWXYZ'' @
     [CHR 0xC0, CHR 0xC1, CHR 0xC2, CHR 0xC3, CHR 0xC4, CHR 0xC5, CHR 0xC6, CHR 0xC7, CHR 0xC8, CHR 0xC9,
      CHR 0xCA, CHR 0xCB, CHR 0xCC, CHR 0xCD, CHR 0xCE, CHR 0xCF, CHR 0xD0, CHR 0xD1, CHR 0xD2, CHR 0xD3,
      CHR 0xD4, CHR 0xD5, CHR 0xD6, CHR 0xD8, CHR 0xD9, CHR 0xDA, CHR 0xDB, CHR 0xDC, CHR 0xDD, CHR 0xDE]"

definition lower_letters :: "char list" where
  "lower_letters = ''abcdefghijklmnopqrstuvwxyz'' @
     [CHR 0xE0, CHR 0xE1, CHR 0xE2, CHR 0xE3, CHR 0xE4, CHR 0xE5, CHR 0xE6, CHR 0xE7, CHR 0xE8, CHR 0xE9,
      CHR 0xEA, CHR 0xEB, CHR 0xEC, CHR 0xED, CHR 0xEE, CHR 0xEF, CHR 0xF0, CHR 0xF1, CHR 0xF2, CHR 0xF3,
      CHR 0xF4, CHR 0xF5, CHR 0xF6, CHR 0xF8, CHR 0xF9, CHR 0xFA, CHR 0xFB, CHR 0xFC, CHR 0xFD, CHR 0xFE]"

definition lower_char :: "char \<Rightarrow> char" where
  "lower_char c =
     (case map_of (zip upper_letters lower_letters) c of
        None \<Rightarrow> c
      | Some l \<Rightarrow> l)"

definition toLowerCase :: "string \<Rightarrow> string" where
  "toLowerCase s = map lower_char s"

definition getTicket :: "string \<Rightarrow> store_file \<Rightarrow> Ticket option \<times> store_file" where
  "getTicket idOrName f = (case getAllTickets f of (ts, f') \<Rightarrow>
     (find (\<lambda>t. toLowerCase (ticket_id t) = toLowerCase idOrName
               \<or> toLowerCase (name t) = toLowerCase idOrName) ts, f'))"

text \<open>\<^verbatim>\<open>Array.prototype.findIndex\<close>; \<open>None\<close> is its \<open>-1\<close>.\<close>

fun findIndex :: "('a \<Rightarrow> bool) \<Rightarrow> 'a list \<Rightarrow> nat option" where
  "findIndex P [] = None"
| "findIndex P (x # xs) =
     (if P x then Some 0 else map_option Suc (findIndex P xs))"

definition createTicket :: "string \<Rightarrow> string \<Rightarrow> int \<Rightarrow> store_file \<Rightarrow> Ticket \<times> store_file" where
  "createTicket ticketId descr now f = (case getConfig f of (config, f') \<Rightarrow>
     (let ticket = \<lparr>ticket_id = ticketId, name = ticketId, description = descr,
            status = PENDING, createdAt = now, startedAt = None, stoppedAt = None,
            closedAt = None, branch = None, error = None, summary = None\<rparr>
      in (ticket, saveConfig (config\<lparr>tickets := tickets config @ [ticket]\<rparr>) f')))"

definition updateTicket :: "string \<Rightarrow> TicketUpdates \<Rightarrow> store_file \<Rightarrow> store_file" where
  "updateTicket i updates f = (case getConfig f of (config, f') \<Rightarrow>
     (case findIndex (\<lambda>t. ticket_id t = i) (tickets config) of
        None \<Rightarrow> f'
      | Some index \<Rightarrow>
          saveConfig (config\<lparr>tickets :=
            (tickets config)[index := spread (tickets config ! index) updates]\<rparr>) f'))"

text \<open>What a reader of the store sees: the tickets of the document, none when the file is absent.\<close>

definition stored :: "store_file \<Rightarrow> Ticket list" where
  "stored f = fst (getAllTickets f)"

section \<open>Configuration\<close>

text \<open>
  The fields of \<^verbatim>\<open>ProjectConfig\<close> that the functions below read. A configuration is
  read once and stays the same during an operation.
\<close>

record ProjectConfig =
  baseRepositoryPath :: "string option"
  automationPath :: "string option"
  baseBranch :: "string option"
  copilotModel :: "string option"

text \<open>
  JavaScript truthiness of a \<^verbatim>\<open>string | undefined\<close>: \<^verbatim>\<open>undefined\<close> and the empty
  string are falsy. \<open>nonempty v\<close> is the string when \<open>v\<close> is truthy.
\<close>

definition nonempty :: "string option \<Rightarrow> string option" where
  "nonempty v = (case v of None \<Rightarrow> None | Some s \<Rightarrow> if s = [] then None else Some s)"

definition getBaseBranch :: "ProjectConfig \<Rightarrow> string" where
  "getBaseBranch cfg = (case nonempty (baseBranch cfg) of None \<Rightarrow> ''develop'' | Some b \<Rightarrow> b)"

definition getCopilotModel :: "ProjectConfig \<Rightarrow> string" where
  "getCopilotModel cfg = (case nonempty (copilotModel cfg) of None \<Rightarrow> ''gpt-4o'' | Some m \<Rightarrow> m)"

section \<open>The outside world: git, the file system, the agents\<close>

text \<open>
  Every command handed to git, to the file system or to an agent is appended to a
  trace; \<open>fs\<close> lists the directories that exist. Whether a command fails is not decided
  by the program: each function takes the outcomes of the commands it issues as an
  argument (an \<open>_env\<close> record), where \<open>Some m\<close> or \<open>Inl m\<close> stands for a thrown
  \<^verbatim>\<open>Error\<close> with message \<open>m\<close>. \<open>path_join\<close> is \<^verbatim>\<open>path.join\<close> on two segments
  that need no normalisation.
\<close>

datatype action =
    Checkout string string
  | Pull string string string
  | Branch string string string
  | WorktreeAdd string string string
  | WorktreeRemove string string
  | RmSync string
  | Status string
  | Diff string
  | Add string
  | Commit string string
  | DeleteLocalBranch string string
  | CheckoutBranch string string string
  | RunAgent string string string
  | SdkCommitMessage string
  | SdkSummary string string

record world =
  fs :: "string list"
  trace :: "action list"

definition perform :: "action \<Rightarrow> world \<Rightarrow> world" where
  "perform a w = w\<lparr>trace := trace w @ [a]\<rparr>"

definition path_join :: "string \<Rightarrow> string \<Rightarrow> string" where
  "path_join a b = a @ ''/'' @ b"

section \<open>GitManager\<close>

record create_env =
  checkout_res :: "string option"
  pull_res :: "string option"
  worktree_add_res :: "string option"

text \<open>
  \<^verbatim>\<open>createWorktree\<close>. The outcome of \<^verbatim>\<open>git branch\<close> is not in \<open>create_env\<close>: its
  failure is caught and ignored. A successful \<^verbatim>\<open>git worktree add\<close> creates the directory.
\<close>

definition createWorktree ::
  "ProjectConfig \<Rightarrow> string \<Rightarrow> create_env \<Rightarrow> world \<Rightarrow> (string + string) \<times> world" where
  "createWorktree cfg ticketId e w =
     (case nonempty (automationPath cfg) of
        None \<Rightarrow> (Inl ''Automation path not configured. Use: autopilot config set automationPath <path>'', w)
      | Some automation \<Rightarrow>
     (case nonempty (baseRepositoryPath cfg) of
        None \<Rightarrow> (Inl ''Base repository path not configured. Use: autopilot config set baseRepositoryPath <path>'', w)
      | Some repo \<Rightarrow>
     (let branchName = ''copilot/'' @ ticketId;
          worktreePath = path_join automation ticketId;
          w1 = perform (Checkout repo (getBaseBranch cfg)) w
      in case checkout_res e of Some m \<Rightarrow> (Inl m, w1) | None \<Rightarrow>
     (let w2 = perform (Pull repo ''origin'' (getBaseBranch cfg)) w1
      in case pull_res e of Some m \<Rightarrow> (Inl m, w2) | None \<Rightarrow>
     (let w3 = perform (Branch repo branchName (getBaseBranch cfg)) w2;
          w4 = perform (WorktreeAdd repo worktreePath branchName) w3
      in case worktree_add_res e of
           Some m \<Rightarrow> (Inl m, w4)
         | None \<Rightarrow> (Inr worktreePath, w4\<lparr>fs := worktreePath # fs w4\<rparr>))))))"

definition worktreeExists :: "ProjectConfig \<Rightarrow> string \<Rightarrow> world \<Rightarrow> string option" where
  "worktreeExists cfg ticketId w =
     (case nonempty (automationPath cfg) of
        None \<Rightarrow> None
      | Some automation \<Rightarrow>
          if path_join automation ticketId \<in> set (fs w)
          then Some (path_join automation ticketId) else None)"

record remove_env =
  worktree_remove_res :: "string option"
  rm_res :: "string option"

text \<open>
  \<^verbatim>\<open>removeWorktree\<close>. \<^verbatim>\<open>fs.rmSync\<close> with \<^verbatim>\<open>force\<close> ignores a missing path only;
  any other failure of it is thrown from inside the \<^verbatim>\<open>catch\<close> block.
\<close>

definition removeWorktree ::
  "ProjectConfig \<Rightarrow> string \<Rightarrow> remove_env \<Rightarrow> world \<Rightarrow> (string + unit) \<times> world" where
  "removeWorktree cfg worktreePath e w =
     (case nonempty (baseRepositoryPath cfg) of
        None \<Rightarrow> (Inl ''Base repository path not configured'', w)
      | Some repo \<Rightarrow>
     (let w1 = perform (WorktreeRemove repo worktreePath) w
      in case worktree_remove_res e of
           None \<Rightarrow> (Inr (), w1\<lparr>fs := removeAll worktreePath (fs w1)\<rparr>)
         | Some m \<Rightarrow>
             if worktreePath \<in> set (fs w1)
             then (let w2 = perform (RmSync worktreePath) w1
                   in case rm_res e of
                        None \<Rightarrow> (Inr (), w2\<lparr>fs := removeAll worktreePath (fs w2)\<rparr>)
                      | Some m' \<Rightarrow> (Inl m', w2))
             else (Inr (), w1)))"

record test_branch_env =
  checkout_branch_res :: "string option"
  checkout_back_res :: "string option"

text \<open>\<^verbatim>\<open>createTestBranch\<close>; a failing deletion of the old test branch is ignored.\<close>

definition createTestBranch ::
  "ProjectConfig \<Rightarrow> string \<Rightarrow> test_branch_env \<Rightarrow> world \<Rightarrow> (string + string) \<times> world" where
  "createTestBranch cfg ticketId e w =
     (case nonempty (baseRepositoryPath cfg) of
        None \<Rightarrow> (Inl ''Base repository path not configured'', w)
      | Some repo \<Rightarrow>
     (let copilotBranch = ''copilot/'' @ ticketId;
          testBranch = ''test/copilot/'' @ ticketId;
          w1 = perform (DeleteLocalBranch repo testBranch) w;
          w2 = perform (CheckoutBranch repo testBranch copilotBranch) w1
      in case checkout_branch_res e of Some m \<Rightarrow> (Inl m, w2) | None \<Rightarrow>
     (let w3 = perform (Checkout repo (getBaseBranch cfg)) w2
      in case checkout_back_res e of
           Some m \<Rightarrow> (Inl m, w3)
         | None \<Rightarrow> (Inr testBranch, w3))))"

record commit_env =
  commit_status_res :: "string + string list"
  add_res :: "string option"
  commit_res :: "string option"

definition default_commit_message :: "string \<Rightarrow> string" where
  "default_commit_message ticketId = ''[feat]: Implement functionality for '' @ ticketId @ '' task''"

definition commitInWorktree ::
  "string \<Rightarrow> string \<Rightarrow> string option \<Rightarrow> commit_env \<Rightarrow> world \<Rightarrow> (string + bool) \<times> world" where
  "commitInWorktree worktreePath ticketId customMessage e w =
     (let w1 = perform (Status worktreePath) w
      in case commit_status_res e of
           Inl m \<Rightarrow> (Inl m, w1)
         | Inr files \<Rightarrow>
             if length files = 0 then (Inr False, w1)
             else
     (let w2 = perform (Add worktreePath) w1
      in case add_res e of Some m \<Rightarrow> (Inl m, w2) | None \<Rightarrow>
     (let commitMessage = (case nonempty customMessage of
                             Some m \<Rightarrow> m
                           | None \<Rightarrow> default_commit_message ticketId);
          w3 = perform (Commit worktreePath commitMessage) w2
      in case commit_res e of
           Some m \<Rightarrow> (Inl m, w3)
         | None \<Rightarrow> (Inr True, w3))))"

definition getWorktreeDiff :: "string \<Rightarrow> string + string \<Rightarrow> world \<Rightarrow> string \<times> world" where
  "getWorktreeDiff worktreePath res w =
     ((case res of Inl m \<Rightarrow> [] | Inr d \<Rightarrow> d), perform (Diff worktreePath) w)"

section \<open>CopilotAgent and CopilotCLI\<close>

text \<open>
  The SDK session of \<^verbatim>\<open>CopilotAgent\<close> is the outside world: \<open>Inl m\<close> when any step
  of it throws, \<open>Inr r\<close> when it ends with the full response \<open>r\<close>. White space is the
  ASCII white space.
\<close>

definition is_space :: "char \<Rightarrow> bool" where
  "is_space c = (c \<in> set [CHR 0x20, CHR 0x09, CHR 0x0A, CHR 0x0B, CHR 0x0C, CHR 0x0D])"

definition trim :: "string \<Rightarrow> string" where
  "trim s = rev (dropWhile is_space (rev (dropWhile is_space s)))"

definition is_quote :: "char \<Rightarrow> bool" where
  "is_quote c = (c = CHR 0x22 \<or> c = CHR 0x27)"

text \<open>\<^verbatim>\<open>replace(/^["']|["']$/g, '')\<close>: one quote off the front, one off the end.\<close>

definition strip_quotes :: "string \<Rightarrow> string" where
  "strip_quotes s =
     (let s1 = (case s of [] \<Rightarrow> [] | c # cs \<Rightarrow> if is_quote c then cs else s)
      in case rev s1 of [] \<Rightarrow> [] | c # cs \<Rightarrow> if is_quote c then rev cs else s1)"

definition first_line :: "string \<Rightarrow> string" where
  "first_line s = takeWhile (\<lambda>c. c \<noteq> CHR 0x0A) s"

text \<open>
  \<^verbatim>\<open>generateCommitMessage\<close>: the whole body is inside \<^verbatim>\<open>try\<close>, and the \<^verbatim>\<open>catch\<close>
  returns a fixed text, so the result is never \<open>Inl\<close>.
\<close>

definition generateCommitMessage :: "string \<Rightarrow> string \<Rightarrow> string + string \<Rightarrow> string + string" where
  "generateCommitMessage diff ticketId session =
     (case session of
        Inl err \<Rightarrow> Inr ''Implement functionality for task''
      | Inr fullResponse \<Rightarrow> Inr (take 60 (first_line (strip_quotes (trim fullResponse)))))"

text \<open>
  The report returned when the summary session fails; of the template's text, the
  indentation and its two non-ASCII characters are left out.
\<close>

definition summary_fallback :: "string \<Rightarrow> string \<Rightarrow> string" where
  "summary_fallback ticketId err =
     ''<div style='' @ [CHR 0x22] @ ''font-family: Arial, sans-serif; padding: 20px;'' @ [CHR 0x22] @ ''>''
     @ ''<h2 style='' @ [CHR 0x22] @ ''color: #f44336;'' @ [CHR 0x22] @ ''>Error al generar resumen</h2>''
     @ ''<p>No se pudo generar el resumen automatico para el ticket '' @ ticketId @ ''.</p>''
     @ ''<p style='' @ [CHR 0x22] @ ''color: #666; font-size: 14px;'' @ [CHR 0x22] @ ''>Error: '' @ err @ ''</p>''
     @ ''</div>''"

text \<open>
  The clean-up of the summary response: \<^verbatim>\<open>trim\<close>, a leading \<^verbatim>\<open>```html\<close> (any letter
  case) or \<^verbatim>\<open>```\<close> with the white space after it, a trailing \<^verbatim>\<open>```\<close>, \<^verbatim>\<open>trim\<close>.
\<close>

definition clean_html :: "string \<Rightarrow> string" where
  "clean_html fullResponse =
     (let h0 = trim fullResponse;
          h1 = (if toLowerCase (take 7 h0) = ''```html'' then dropWhile is_space (drop 7 h0) else h0);
          h2 = (if take 3 h1 = ''```'' then dropWhile is_space (drop 3 h1) else h1);
          r = dropWhile is_space (rev h2);
          h3 = (if take 3 r = ''```'' then rev (drop 3 r) else h2)
      in trim h3)"

definition generateTicketSummary ::
  "string \<Rightarrow> string \<Rightarrow> string option \<Rightarrow> string + string \<Rightarrow> string + string" where
  "generateTicketSummary ticketId diff commitMessage session =
     (case session of
        Inl err \<Rightarrow> Inr (summary_fallback ticketId err)
      | Inr fullResponse \<Rightarrow> Inr (clean_html fullResponse))"

record CopilotCLIResult =
  cr_success :: bool
  cr_output :: string
  cr_error :: "string option"

text \<open>
  \<^verbatim>\<open>CopilotCLI.resolveTicket\<close>: the agent runs in the worktree; what it answers is
  the outside world's.
\<close>

definition resolveTicket ::
  "Ticket \<Rightarrow> string \<Rightarrow> string \<Rightarrow> CopilotCLIResult \<Rightarrow> world \<Rightarrow> CopilotCLIResult \<times> world" where
  "resolveTicket ticket workingDir model res w =
     (res, perform (RunAgent workingDir (ticket_id ticket) model) w)"

section \<open>TicketResolverCLI\<close>

text \<open>
  An optional property of an options object as an object spread sees it: the key is
  absent, or it is there and holds \<^verbatim>\<open>undefined\<close>, or it is there and holds a value.
\<close>

datatype 'a property = Absent | Undefined | Given 'a

text \<open>
  \<^verbatim>\<open>SimplifiedResolverOptions\<close>. The constructor spreads the options over a default for
  \<open>cleanupOnError\<close>, so that property is kept as the spread sees it. \<open>skipValidation\<close>
  and \<open>existingWorktree\<close> are only read: \<open>None\<close> is \<^verbatim>\<open>undefined\<close>, the value read from
  an absent key too.
\<close>

record SimplifiedResolverOptions =
  skipValidation :: "bool option"
  cleanupOnError :: "bool property"
  existingWorktree :: "string option"

record SimplifiedResolutionResult =
  r_success :: bool
  r_ticket :: Ticket
  r_worktreePath :: "string option"
  r_hasChanges :: bool
  r_testBranch :: "string option"
  r_commitMessage :: "string option"
  r_summary :: "string option"
  r_error :: "string option"

text \<open>
  The constructor: \<^verbatim>\<open>{ cleanupOnError: true, ...options }\<close>, with \<open>None\<close> for no
  options at all. A key of \<^verbatim>\<open>options\<close> that is there replaces the default, also when
  it holds \<^verbatim>\<open>undefined\<close>.
\<close>

definition resolver_options :: "SimplifiedResolverOptions option \<Rightarrow> SimplifiedResolverOptions" where
  "resolver_options opts =
     (case opts of
        None \<Rightarrow> \<lparr>skipValidation = None, cleanupOnError = Given True, existingWorktree = None\<rparr>
      | Some ops \<Rightarrow>
          ops\<lparr>cleanupOnError := (case cleanupOnError ops of
                                  Absent \<Rightarrow> Given True
                                | Undefined \<Rightarrow> Undefined
                                | Given b \<Rightarrow> Given b)\<rparr>)"

text \<open>
  What one run of \<^verbatim>\<open>resolve\<close> meets outside: whether the Copilot CLI and the SDK are
  there, and the outcome of each command in the order the pipeline issues them.
\<close>

record resolve_env =
  cli_available :: bool
  sdk_available :: bool
  r_create :: create_env
  copilotResult :: CopilotCLIResult
  status_res :: "string + string list"
  diff_res :: "string + string"
  commit_session :: "string + string"
  r_commit :: commit_env
  summary_session :: "string + string"
  r_test :: test_branch_env
  r_remove :: remove_env

definition validateConfiguration :: "ProjectConfig \<Rightarrow> bool \<Rightarrow> string + unit" where
  "validateConfiguration cfg cli =
     (if \<not> cli
      then Inl ''GitHub Copilot CLI not found. Install it with: npm install -g @github/copilot-cli''
      else if nonempty (automationPath cfg) = None
      then Inl ''Automation path not configured. Set it with: autopilot config set automationPath <path>''
      else if nonempty (baseRepositoryPath cfg) = None
      then Inl ''Base repository path not configured. Set it with: autopilot config set baseRepositoryPath <path>''
      else Inr ())"

text \<open>
  The commit message of step 4: asked from the SDK when there is one and the diff is
  not empty. \<open>None\<close> is the variable \<^verbatim>\<open>commitMessage\<close> left \<^verbatim>\<open>undefined\<close>.
\<close>

definition generated_commit_message :: "Ticket \<Rightarrow> string \<Rightarrow> resolve_env \<Rightarrow> string option" where
  "generated_commit_message ticket diff e =
     (if sdk_available e \<and> diff \<noteq> []
      then (case generateCommitMessage diff (ticket_id ticket) (commit_session e) of
              Inr generatedMessage \<Rightarrow>
                Some (''[feat]: '' @ generatedMessage @ ''('' @ ticket_id ticket @ '')'')
            | Inl err \<Rightarrow> None)
      else None)"

definition generated_summary ::
  "Ticket \<Rightarrow> string \<Rightarrow> string option \<Rightarrow> resolve_env \<Rightarrow> string option" where
  "generated_summary ticket diff commitMessage e =
     (if sdk_available e \<and> diff \<noteq> []
      then (case generateTicketSummary (ticket_id ticket) diff commitMessage (summary_session e) of
              Inr html \<Rightarrow> Some html
            | Inl err \<Rightarrow> None)
      else None)"

text \<open>Step 5 and the \<^verbatim>\<open>return\<close>, when there are changes.\<close>

definition branch_and_return ::
  "ProjectConfig \<Rightarrow> Ticket \<Rightarrow> string \<Rightarrow> resolve_env \<Rightarrow> string option \<Rightarrow> string option \<Rightarrow> world
     \<Rightarrow> (string + SimplifiedResolutionResult) \<times> world" where
  "branch_and_return cfg ticket worktreePath e commitMessage summaryHTML w =
     (case createTestBranch cfg (ticket_id ticket) (r_test e) w of
        (Inl m, w') \<Rightarrow> (Inl m, w')
      | (Inr testBranch, w') \<Rightarrow>
          (Inr \<lparr>r_success = True, r_ticket = ticket, r_worktreePath = Some worktreePath,
                r_hasChanges = True, r_testBranch = Some testBranch,
                r_commitMessage = commitMessage, r_summary = summaryHTML,
                r_error = None\<rparr>, w'))"

text \<open>Step 4 when \<^verbatim>\<open>git status\<close> lists files, and what follows it.\<close>

definition commit_changes ::
  "ProjectConfig \<Rightarrow> Ticket \<Rightarrow> string \<Rightarrow> resolve_env \<Rightarrow> world
     \<Rightarrow> (string + SimplifiedResolutionResult) \<times> world" where
  "commit_changes cfg ticket worktreePath e w =
     (case getWorktreeDiff worktreePath (diff_res e) w of (diff, w2) \<Rightarrow>
     (let useSdk = (sdk_available e \<and> diff \<noteq> []);
          commitMessage = generated_commit_message ticket diff e;
          w3 = (if useSdk then perform (SdkCommitMessage (take 3000 diff)) w2 else w2)
      in case commitInWorktree worktreePath (ticket_id ticket) commitMessage (r_commit e) w3 of
           (Inl m, w4) \<Rightarrow> (Inl m, w4)
         | (Inr committed, w4) \<Rightarrow>
             branch_and_return cfg ticket worktreePath e commitMessage
               (generated_summary ticket diff commitMessage e)
               (if useSdk then perform (SdkSummary (ticket_id ticket) (take 8000 diff)) w4
                else w4)))"

text \<open>
  Step 4 to the \<^verbatim>\<open>return\<close> of the \<^verbatim>\<open>try\<close> block, once the agent has succeeded in
  \<open>worktreePath\<close>. \<open>Inl m\<close> is an exception with message \<open>m\<close> leaving the block.
\<close>

definition commit_and_branch ::
  "ProjectConfig \<Rightarrow> Ticket \<Rightarrow> string \<Rightarrow> resolve_env \<Rightarrow> world
     \<Rightarrow> (string + SimplifiedResolutionResult) \<times> world" where
  "commit_and_branch cfg ticket worktreePath e w =
     (let w1 = perform (Status worktreePath) w
      in case status_res e of
           Inl m \<Rightarrow> (Inl m, w1)
         | Inr files \<Rightarrow>
             if length files > 0 then commit_changes cfg ticket worktreePath e w1
             else
               (Inr \<lparr>r_success = True, r_ticket = ticket, r_worktreePath = Some worktreePath,
                     r_hasChanges = False, r_testBranch = None, r_commitMessage = None,
                     r_summary = None, r_error = None\<rparr>, w1))"

text \<open>
  Step 2 of \<^verbatim>\<open>resolve\<close>: the worktree the caller supplies, or a new one.
\<close>

definition acquireWorktree ::
  "ProjectConfig \<Rightarrow> Ticket \<Rightarrow> SimplifiedResolverOptions \<Rightarrow> resolve_env \<Rightarrow> world
     \<Rightarrow> (string + string) \<times> world" where
  "acquireWorktree cfg ticket options e w =
     (case nonempty (existingWorktree options) of
        Some p \<Rightarrow> (Inr p, w)
      | None \<Rightarrow> createWorktree cfg (ticket_id ticket) (r_create e) w)"

text \<open>The message of the \<^verbatim>\<open>Error\<close> thrown when the agent reports a failure.\<close>

definition agent_error :: "CopilotCLIResult \<Rightarrow> string" where
  "agent_error res = (case nonempty (cr_error res) of
                        Some m \<Rightarrow> m
                      | None \<Rightarrow> ''Copilot CLI failed'')"

text \<open>
  The \<^verbatim>\<open>try\<close> block of \<^verbatim>\<open>resolve\<close>. An exception is \<open>Inl (m, p)\<close>: its message and
  the value the variable \<^verbatim>\<open>worktreePath\<close> has when it is thrown.
\<close>

definition resolve_try ::
  "ProjectConfig \<Rightarrow> Ticket \<Rightarrow> SimplifiedResolverOptions \<Rightarrow> resolve_env \<Rightarrow> world
     \<Rightarrow> ((string \<times> string option) + SimplifiedResolutionResult) \<times> world" where
  "resolve_try cfg ticket options e w =
     (case validateConfiguration cfg (cli_available e) of
        Inl m \<Rightarrow> (Inl (m, None), w)
      | Inr u \<Rightarrow>
     (case acquireWorktree cfg ticket options e w of
        (Inl m, w1) \<Rightarrow> (Inl (m, None), w1)
      | (Inr worktreePath, w1) \<Rightarrow>
     (case resolveTicket ticket worktreePath (getCopilotModel cfg) (copilotResult e) w1 of
        (res, w2) \<Rightarrow>
          if \<not> cr_success res
          then (Inl (agent_error res, Some worktreePath), w2)
          else (case commit_and_branch cfg ticket worktreePath e w2 of
                  (Inl m, w3) \<Rightarrow> (Inl (m, Some worktreePath), w3)
                | (Inr r, w3) \<Rightarrow> (Inr r, w3)))))"

text \<open>The result built in the \<^verbatim>\<open>catch\<close> block of \<^verbatim>\<open>resolve\<close>.\<close>

definition failure_result :: "Ticket \<Rightarrow> string option \<Rightarrow> string \<Rightarrow> SimplifiedResolutionResult" where
  "failure_result ticket worktreePath errorMessage =
     \<lparr>r_success = False, r_ticket = ticket, r_worktreePath = worktreePath,
      r_hasChanges = False, r_testBranch = None, r_commitMessage = None,
      r_summary = None, r_error = Some errorMessage\<rparr>"

text \<open>
  \<^verbatim>\<open>resolve\<close> with its \<^verbatim>\<open>catch\<close> block. An exception of \<^verbatim>\<open>removeWorktree\<close> is caught
  there and dropped; what it did before throwing stays done.
\<close>

definition resolve ::
  "ProjectConfig \<Rightarrow> Ticket \<Rightarrow> SimplifiedResolverOptions option \<Rightarrow> resolve_env \<Rightarrow> world
     \<Rightarrow> SimplifiedResolutionResult \<times> world" where
  "resolve cfg ticket opts e w =
     (let options = resolver_options opts
      in case resolve_try cfg ticket options e w of
           (Inr r, w') \<Rightarrow> (r, w')
         | (Inl (errorMessage, worktreePath), w') \<Rightarrow>
             (failure_result ticket worktreePath errorMessage,
              (case nonempty worktreePath of
                 Some p \<Rightarrow>
                   if cleanupOnError options = Given True
                   then snd (removeWorktree cfg p (r_remove e) w')
                   else w'
               | None \<Rightarrow> w')))"

section \<open>Commands\<close>

record AutopilotTicketResult =
  tr_ticket :: Ticket
  tr_success :: bool
  tr_error :: "string option"
  tr_summary :: "string option"

record AutopilotResult =
  completed :: "AutopilotTicketResult list"
  failed :: "AutopilotTicketResult list"
  cancelled :: bool

text \<open>
  The progress updates, one constructor for each \<^verbatim>\<open>type\<close>; a ticket in an update is
  its id and name. Durations are wall-clock readings and are not modelled.
\<close>

datatype update =
    NoTickets
  | Started nat "(string \<times> string) list"
  | Processing nat nat "string \<times> string"
  | TicketCompleted "string \<times> string" nat nat
  | TicketFailed "string \<times> string" "string option" nat nat
  | Cancelled
  | Completed AutopilotResult

text \<open>
  A \<^verbatim>\<open>Commands\<close> instance with the store and the world it works on.
  \<open>autopilotCallback\<close> tells whether a callback is registered, \<open>events\<close> is what the
  callback has received. \<open>status_log\<close> records every write to the store: the id written
  to, and the status stored under that id before and after the write.
\<close>

record system =
  autopilotRunning :: bool
  autopilotShouldStop :: bool
  autopilotCallback :: bool
  events :: "update list"
  store :: store_file
  outside :: world
  status_log :: "(string \<times> TicketStatus \<times> TicketStatus) list"

definition lookup :: "string \<Rightarrow> store_file \<Rightarrow> Ticket option" where
  "lookup i f = find (\<lambda>t. ticket_id t = i) (stored f)"

definition status_change ::
  "string \<Rightarrow> store_file \<Rightarrow> store_file \<Rightarrow> (string \<times> TicketStatus \<times> TicketStatus) list" where
  "status_change i f f' =
     (case lookup i f of
        None \<Rightarrow> []
      | Some t \<Rightarrow> (case lookup i f' of None \<Rightarrow> [] | Some t' \<Rightarrow> [(i, status t, status t')]))"

text \<open>\<^verbatim>\<open>Storage.updateTicket\<close> called from \<^verbatim>\<open>Commands\<close>.\<close>

definition Storage_updateTicket :: "string \<Rightarrow> TicketUpdates \<Rightarrow> system \<Rightarrow> system" where
  "Storage_updateTicket i u s =
     s\<lparr>store := updateTicket i u (store s),
       status_log := status_log s @ status_change i (store s) (updateTicket i u (store s))\<rparr>"

definition sendUpdate :: "update \<Rightarrow> system \<Rightarrow> system" where
  "sendUpdate u s = (if autopilotCallback s then s\<lparr>events := events s @ [u]\<rparr> else s)"

definition stopAutopilot :: "system \<Rightarrow> system" where
  "stopAutopilot s = (if autopilotRunning s then s\<lparr>autopilotShouldStop := True\<rparr> else s)"

definition getAutopilotStatus :: "system \<Rightarrow> bool \<times> bool" where
  "getAutopilotStatus s = (autopilotRunning s, autopilotShouldStop s)"

subsection \<open>resolveTicketAutopilot\<close>

text \<open>
  What the processing of one ticket meets: the world of its \<^verbatim>\<open>resolve\<close>, the two
  clock readings, and whether \<^verbatim>\<open>stopAutopilot\<close> is called while it is awaited.
\<close>

record ticket_env =
  t_resolve :: resolve_env
  startedAt_now :: int
  closedAt_now :: int
  stop_requested :: bool

record autopilot_outcome =
  o_success :: bool
  o_summary :: "string option"
  o_error :: "string option"

text \<open>
  \<^verbatim>\<open>resolveTicketAutopilot\<close>. Its \<^verbatim>\<open>catch\<close> block is never entered: \<open>resolve\<close> returns
  a result for every input.
\<close>

definition resolveTicketAutopilot ::
  "ProjectConfig \<Rightarrow> Ticket \<Rightarrow> string option \<Rightarrow> ticket_env \<Rightarrow> system
     \<Rightarrow> autopilot_outcome \<times> system" where
  "resolveTicketAutopilot cfg ticket existing e s =
     (let s1 = Storage_updateTicket (ticket_id ticket)
                 (no_updates\<lparr>u_status := Some WORKING, u_startedAt := Some (startedAt_now e)\<rparr>) s
      in case resolve cfg ticket
                (Some \<lparr>skipValidation = Some False, cleanupOnError = Given True,
                       existingWorktree = existing\<rparr>)
                (t_resolve e) (outside s1) of
           (result, w') \<Rightarrow>
     (let s2 = s1\<lparr>outside := w'\<rparr>;
          s3 = (if r_success result \<and> nonempty (r_summary result) \<noteq> None
                then Storage_updateTicket (ticket_id ticket)
                       (no_updates\<lparr>u_summary := r_summary result, u_status := Some CLOSED,
                          u_closedAt := Some (closedAt_now e)\<rparr>) s2
                else if r_success result
                then Storage_updateTicket (ticket_id ticket)
                       (no_updates\<lparr>u_status := Some CLOSED,
                          u_closedAt := Some (closedAt_now e)\<rparr>) s2
                else Storage_updateTicket (ticket_id ticket)
                       (no_updates\<lparr>u_status := Some ERROR,
                          u_error := Some (case nonempty (r_error result) of
                                             Some m \<Rightarrow> m
                                           | None \<Rightarrow> ''Unknown error'')\<rparr>) s2)
      in (\<lparr>o_success = r_success result, o_summary = r_summary result,
            o_error = r_error result\<rparr>, s3)))"

subsection \<open>autopilotMode\<close>

text \<open>
  \<^verbatim>\<open>Array.prototype.sort\<close> with a comparator: the sort is stable, and for a comparator
  that orders the elements consistently the stable result is unique; it is computed
  here by insertion. The comparator of \<^verbatim>\<open>autopilotMode\<close> subtracts the time stamps.
\<close>

fun insert_sorted :: "('a \<Rightarrow> 'a \<Rightarrow> int) \<Rightarrow> 'a \<Rightarrow> 'a list \<Rightarrow> 'a list" where
  "insert_sorted cmp x [] = [x]"
| "insert_sorted cmp x (y # ys) =
     (if cmp x y \<le> 0 then x # y # ys else y # insert_sorted cmp x ys)"

fun sort_with :: "('a \<Rightarrow> 'a \<Rightarrow> int) \<Rightarrow> 'a list \<Rightarrow> 'a list" where
  "sort_with cmp [] = []"
| "sort_with cmp (x # xs) = insert_sorted cmp x (sort_with cmp xs)"

definition by_createdAt :: "Ticket \<Rightarrow> Ticket \<Rightarrow> int" where
  "by_createdAt a b = createdAt a - createdAt b"

definition pendingTickets :: "Ticket list \<Rightarrow> Ticket list" where
  "pendingTickets allTickets =
     sort_with by_createdAt (filter (\<lambda>t. status t = PENDING) allTickets)"

text \<open>
  The body of the \<^verbatim>\<open>try\<close> in the pre-provisioning loop: an existing worktree is
  taken as it is, otherwise one is created.
\<close>

definition provisionWorktree ::
  "ProjectConfig \<Rightarrow> string \<Rightarrow> create_env \<Rightarrow> world \<Rightarrow> (string + string) \<times> world" where
  "provisionWorktree cfg ticketId e w =
     (case worktreeExists cfg ticketId w of
        Some existing \<Rightarrow> (Inr existing, w)
      | None \<Rightarrow> createWorktree cfg ticketId e w)"

fun provision_loop ::
  "ProjectConfig \<Rightarrow> (nat \<Rightarrow> create_env) \<Rightarrow> nat \<Rightarrow> Ticket list
     \<Rightarrow> (string \<rightharpoonup> string) \<times> world \<Rightarrow> (string \<rightharpoonup> string) \<times> world" where
  "provision_loop cfg pe i [] acc = acc"
| "provision_loop cfg pe i (t # ts) (worktreeMap, w) =
     (case provisionWorktree cfg (ticket_id t) (pe i) w of
        (Inr p, w') \<Rightarrow> provision_loop cfg pe (Suc i) ts (worktreeMap(ticket_id t \<mapsto> p), w')
      | (Inl m, w') \<Rightarrow> provision_loop cfg pe (Suc i) ts (worktreeMap, w'))"

text \<open>
  One pass through the body of the ticket loop, for the ticket at index \<open>i\<close>, after
  the stop check. The \<^verbatim>\<open>catch\<close> block of the body is never entered:
  \<open>resolveTicketAutopilot\<close> returns an outcome for every input. A call of
  \<^verbatim>\<open>stopAutopilot\<close> that arrives while the ticket is awaited takes effect here.
\<close>

definition process_ticket ::
  "ProjectConfig \<Rightarrow> (nat \<Rightarrow> ticket_env) \<Rightarrow> nat \<Rightarrow> (string \<rightharpoonup> string) \<Rightarrow> nat \<Rightarrow> Ticket
     \<Rightarrow> system \<times> AutopilotTicketResult list \<times> AutopilotTicketResult list
     \<Rightarrow> system \<times> AutopilotTicketResult list \<times> AutopilotTicketResult list" where
  "process_ticket cfg te n_total worktreeMap i ticket acc =
     (case acc of (s, good, bad) \<Rightarrow>
     (let s1 = sendUpdate (Processing (i + 1) n_total (ticket_id ticket, name ticket)) s
      in case resolveTicketAutopilot cfg ticket (worktreeMap (ticket_id ticket)) (te i) s1 of
           (result, s2) \<Rightarrow>
     (let s3 = (if stop_requested (te i) then stopAutopilot s2 else s2)
      in if o_success result
         then (sendUpdate (TicketCompleted (ticket_id ticket, name ticket) (i + 1) n_total) s3,
               good @ [\<lparr>tr_ticket = ticket, tr_success = True, tr_error = None,
                         tr_summary = o_summary result\<rparr>],
               bad)
         else (sendUpdate (TicketFailed (ticket_id ticket, name ticket) (o_error result)
                             (i + 1) n_total) s3,
               good,
               bad @ [\<lparr>tr_ticket = ticket, tr_success = False, tr_error = o_error result,
                        tr_summary = None\<rparr>]))))"

text \<open>The ticket loop, from index \<open>i\<close> on.\<close>

fun ticket_loop ::
  "ProjectConfig \<Rightarrow> (nat \<Rightarrow> ticket_env) \<Rightarrow> nat \<Rightarrow> (string \<rightharpoonup> string) \<Rightarrow> nat \<Rightarrow> Ticket list
     \<Rightarrow> system \<times> AutopilotTicketResult list \<times> AutopilotTicketResult list
     \<Rightarrow> system \<times> AutopilotTicketResult list \<times> AutopilotTicketResult list" where
  "ticket_loop cfg te n_total worktreeMap i [] acc = acc"
| "ticket_loop cfg te n_total worktreeMap i (ticket # rest) (s, good, bad) =
     (if autopilotShouldStop s then (sendUpdate Cancelled s, good, bad)
      else ticket_loop cfg te n_total worktreeMap (Suc i) rest
             (process_ticket cfg te n_total worktreeMap i ticket (s, good, bad)))"

record run_env =
  provision_env :: "nat \<Rightarrow> create_env"
  stop_while_provisioning :: bool
  ticket_envs :: "nat \<Rightarrow> ticket_env"

definition finally_reset :: "system \<Rightarrow> system" where
  "finally_reset s =
     s\<lparr>autopilotRunning := False, autopilotShouldStop := False, autopilotCallback := False\<rparr>"

text \<open>
  The \<^verbatim>\<open>started\<close> update and the pre-provisioning phase; a call of \<^verbatim>\<open>stopAutopilot\<close>
  that arrives during the phase takes effect here.
\<close>

definition prepare_run ::
  "ProjectConfig \<Rightarrow> run_env \<Rightarrow> Ticket list \<Rightarrow> system \<Rightarrow> (string \<rightharpoonup> string) \<times> system" where
  "prepare_run cfg e pending s =
     (let s3 = sendUpdate (Started (length pending)
                             (map (\<lambda>t. (ticket_id t, name t)) pending)) s
      in case provision_loop cfg (provision_env e) 0 pending (Map.empty, outside s3) of
           (worktreeMap, w') \<Rightarrow>
             (worktreeMap,
              if stop_while_provisioning e then stopAutopilot (s3\<lparr>outside := w'\<rparr>)
              else s3\<lparr>outside := w'\<rparr>))"

text \<open>
  \<^verbatim>\<open>autopilotMode\<close>; \<open>callback\<close> tells whether the caller passes one. \<open>Inl m\<close> is the
  \<^verbatim>\<open>Error\<close> thrown before the \<^verbatim>\<open>try\<close>.
\<close>

definition autopilotMode ::
  "ProjectConfig \<Rightarrow> bool \<Rightarrow> run_env \<Rightarrow> system \<Rightarrow> (string + AutopilotResult) \<times> system" where
  "autopilotMode cfg callback e s =
     (if autopilotRunning s then (Inl ''Autopilot is already running'', s)
      else
     (let s1 = s\<lparr>autopilotRunning := True, autopilotShouldStop := False,
                 autopilotCallback := callback\<rparr>
      in case getAllTickets (store s1) of (allTickets, f') \<Rightarrow>
     (let s2 = s1\<lparr>store := f'\<rparr>;
          pending = pendingTickets allTickets
      in if length pending = 0
         then (Inr \<lparr>completed = [], failed = [], cancelled = False\<rparr>,
               finally_reset (sendUpdate NoTickets (s2\<lparr>autopilotRunning := False\<rparr>)))
         else
     (case prepare_run cfg e pending s2 of (worktreeMap, s5) \<Rightarrow>
     (case ticket_loop cfg (ticket_envs e) (length pending) worktreeMap 0 pending
                (s5, [], []) of
        (s6, good, bad) \<Rightarrow>
     (let result = \<lparr>completed = good, failed = bad, cancelled = autopilotShouldStop s6\<rparr>
      in (Inr result, finally_reset (sendUpdate (Completed result) s6))))))))"

subsection \<open>The autopilot route of the web server\<close>

text \<open>
  \<^verbatim>\<open>new Commands()\<close>: the autopilot fields with the values the class declares. The
  store file and the world are those of the process.
\<close>

definition new_Commands :: "store_file \<Rightarrow> world \<Rightarrow> system" where
  "new_Commands f w =
     \<lparr>autopilotRunning = False, autopilotShouldStop = False, autopilotCallback = False,
      events = [], store = f, outside = w, status_log = []\<rparr>"

text \<open>
  The answers of \<^verbatim>\<open>POST /api/tickets/autopilot\<close>: status 409 with its error, the
  refusal for want of pending tickets, and the success with the number of pending
  tickets.
\<close>

datatype response = Conflict string | NoPending string | AutopilotStarted nat

text \<open>
  The handler of \<^verbatim>\<open>POST /api/tickets/autopilot\<close>, in a process whose store file is
  \<open>f\<close> and whose world is \<open>w\<close>. It does not await \<^verbatim>\<open>autopilotMode\<close>; the second
  component is the \<^verbatim>\<open>Commands\<close> instance of the request when the run it has started,
  if any, has ended.
\<close>

definition post_autopilot ::
  "ProjectConfig \<Rightarrow> run_env \<Rightarrow> store_file \<Rightarrow> world \<Rightarrow> response \<times> system" where
  "post_autopilot cfg e f w =
     (let commands = new_Commands f w;
          running = fst (getAutopilotStatus commands)
      in if running then (Conflict ''Autopilot is already running'', commands)
         else
     (case getAllTickets (store commands) of (allTickets, f') \<Rightarrow>
     (let pending = filter (\<lambda>t. status t = PENDING) allTickets
      in if length pending = 0
         then (NoPending ''No pending tickets to process'', commands\<lparr>store := f'\<rparr>)
         else (AutopilotStarted (length pending),
               snd (autopilotMode cfg True e (commands\<lparr>store := f'\<rparr>))))))"

subsection \<open>start and stop\<close>

definition cwd :: string where
  "cwd = ''.''"

record start_env =
  isGitRepo_res :: bool
  current_branch_res :: "string option"
  s_checkout_res :: "string option"
  s_pull_res :: "string option"
  create_branch_res :: "string option"
  start_now :: int
  copilot_available :: bool
  a_cli_available :: bool
  a_resolve :: resolve_env
  a_closed_now :: int

definition isGitRepo :: "bool \<Rightarrow> world \<Rightarrow> bool \<times> world" where
  "isGitRepo res w = (res, perform (Status cwd) w)"

definition pullDevelop :: "ProjectConfig \<Rightarrow> start_env \<Rightarrow> world \<Rightarrow> (string + unit) \<times> world" where
  "pullDevelop cfg e w =
     (let w1 = perform (Status cwd) w
      in case current_branch_res e of Some m \<Rightarrow> (Inl m, w1) | None \<Rightarrow>
     (let w2 = perform (Checkout cwd (getBaseBranch cfg)) w1
      in case s_checkout_res e of Some m \<Rightarrow> (Inl m, w2) | None \<Rightarrow>
     (let w3 = perform (Pull cwd ''origin'' (getBaseBranch cfg)) w2
      in case s_pull_res e of Some m \<Rightarrow> (Inl m, w3) | None \<Rightarrow> (Inr (), w3))))"

definition createBranch ::
  "ProjectConfig \<Rightarrow> string \<Rightarrow> string option \<Rightarrow> world \<Rightarrow> (string + string) \<times> world" where
  "createBranch cfg ticketId res w =
     (let branchName = ''copilot/'' @ ticketId;
          w1 = perform (CheckoutBranch cwd branchName (getBaseBranch cfg)) w
      in case res of Some m \<Rightarrow> (Inl m, w1) | None \<Rightarrow> (Inr branchName, w1))"

text \<open>
  \<^verbatim>\<open>analyzeTicketWithAI\<close>; an exception inside it is caught and reported there.
\<close>

definition analyzeTicketWithAI :: "ProjectConfig \<Rightarrow> Ticket \<Rightarrow> start_env \<Rightarrow> system \<Rightarrow> system" where
  "analyzeTicketWithAI cfg ticket e s =
     (if \<not> a_cli_available e then s
      else case resolve cfg ticket
                  (Some \<lparr>skipValidation = Some False, cleanupOnError = Given True,
                         existingWorktree = None\<rparr>)
                  (a_resolve e) (outside s) of
             (result, w') \<Rightarrow>
               if r_success result \<and> nonempty (r_summary result) \<noteq> None
               then Storage_updateTicket (ticket_id ticket)
                      (no_updates\<lparr>u_summary := r_summary result, u_status := Some CLOSED,
                         u_closedAt := Some (a_closed_now e)\<rparr>) (s\<lparr>outside := w'\<rparr>)
               else s\<lparr>outside := w'\<rparr>)"

definition start_failed :: "Ticket \<Rightarrow> string \<Rightarrow> system \<Rightarrow> system" where
  "start_failed ticket m s =
     Storage_updateTicket (ticket_id ticket) (no_updates\<lparr>u_status := Some ERROR, u_error := Some m\<rparr>) s"

definition start :: "ProjectConfig \<Rightarrow> string option \<Rightarrow> start_env \<Rightarrow> system \<Rightarrow> system" where
  "start cfg ticketId e s =
     (case nonempty ticketId of
        None \<Rightarrow> s
      | Some tid \<Rightarrow>
     (case getTicket tid (store s) of (found, f') \<Rightarrow>
     (case found of
        None \<Rightarrow> s\<lparr>store := f'\<rparr>
      | Some ticket \<Rightarrow>
          if status ticket = WORKING then s\<lparr>store := f'\<rparr>
          else
     (case isGitRepo (isGitRepo_res e) (outside s) of (isGit, w1) \<Rightarrow>
          if \<not> isGit then
     (let s2 = Storage_updateTicket (ticket_id ticket)
                 (no_updates\<lparr>u_status := Some WORKING, u_startedAt := Some (start_now e)\<rparr>)
                 (s\<lparr>store := f', outside := w1\<rparr>)
      in if copilot_available e then analyzeTicketWithAI cfg ticket e s2 else s2)
          else
     (let s2 = Storage_updateTicket (ticket_id ticket) (no_updates\<lparr>u_status := Some BRANCHING\<rparr>)
                 (s\<lparr>store := f', outside := w1\<rparr>)
      in case pullDevelop cfg e (outside s2) of
           (Inl m, w3) \<Rightarrow> start_failed ticket m (s2\<lparr>outside := w3\<rparr>)
         | (Inr u, w3) \<Rightarrow>
     (case createBranch cfg (ticket_id ticket) (create_branch_res e) w3 of
        (Inl m, w4) \<Rightarrow> start_failed ticket m (s2\<lparr>outside := w4\<rparr>)
      | (Inr branchName, w4) \<Rightarrow>
     (let s3 = Storage_updateTicket (ticket_id ticket)
                 (no_updates\<lparr>u_status := Some WORKING, u_startedAt := Some (start_now e),
                    u_branch := Some branchName\<rparr>) (s2\<lparr>outside := w4\<rparr>)
      in if copilot_available e then analyzeTicketWithAI cfg ticket e s3 else s3)))))))"

record stop_env =
  st_isGitRepo_res :: bool
  st_status_res :: "string + string list"
  shouldCommit :: bool
  commitMessage_answer :: string
  st_add_res :: "string option"
  st_commit_res :: "string option"
  st_checkout_res :: "string option"
  stopped_now :: int

text \<open>The git part of \<^verbatim>\<open>stop\<close>, inside its \<^verbatim>\<open>try\<close>.\<close>

definition stop_git :: "ProjectConfig \<Rightarrow> Ticket \<Rightarrow> stop_env \<Rightarrow> world \<Rightarrow> (string + unit) \<times> world" where
  "stop_git cfg ticket e w =
     (case isGitRepo (st_isGitRepo_res e) w of (isGit, w1) \<Rightarrow>
        if \<not> isGit then (Inr (), w1)
        else
     (let w2 = perform (Status cwd) w1
      in case st_status_res e of Inl m \<Rightarrow> (Inl m, w2) | Inr files \<Rightarrow>
     (case (if length files > 0 \<and> shouldCommit e
            then (let w3 = perform (Add cwd) w2
                  in case st_add_res e of Some m \<Rightarrow> (Inl m, w3) | None \<Rightarrow>
                 (let w4 = perform (Commit cwd (''['' @ ticket_id ticket @ ''] ''
                                                  @ commitMessage_answer e)) w3
                  in case st_commit_res e of Some m \<Rightarrow> (Inl m, w4) | None \<Rightarrow> (Inr (), w4)))
            else (Inr (), w2)) of
        (Inl m, w5) \<Rightarrow> (Inl m, w5)
      | (Inr u, w5) \<Rightarrow>
     (let w6 = perform (Checkout cwd (getBaseBranch cfg)) w5
      in case st_checkout_res e of Some m \<Rightarrow> (Inl m, w6) | None \<Rightarrow> (Inr (), w6)))))"

definition stop :: "ProjectConfig \<Rightarrow> string option \<Rightarrow> stop_env \<Rightarrow> system \<Rightarrow> system" where
  "stop cfg ticketId e s =
     (case nonempty ticketId of
        None \<Rightarrow> s
      | Some tid \<Rightarrow>
     (case getTicket tid (store s) of (found, f') \<Rightarrow>
     (case found of
        None \<Rightarrow> s\<lparr>store := f'\<rparr>
      | Some ticket \<Rightarrow>
          if status ticket \<noteq> WORKING then s\<lparr>store := f'\<rparr>
          else
     (case stop_git cfg ticket e (outside s) of
        (Inl m, w') \<Rightarrow> s\<lparr>store := f', outside := w'\<rparr>
      | (Inr u, w') \<Rightarrow>
          Storage_updateTicket (ticket_id ticket)
            (no_updates\<lparr>u_status := Some STOPPED, u_stoppedAt := Some (stopped_now e)\<rparr>)
            (s\<lparr>store := f', outside := w'\<rparr>)))))"

text \<open>The tickets of the \<^verbatim>\<open>processing\<close> updates, in the order of the updates.\<close>

fun processed :: "update list \<Rightarrow> (string \<times> string) list" where
  "processed [] = []"
| "processed (Processing i n t # us) = t # processed us"
| "processed (u # us) = processed us"

text \<open>
  The edges of the ticket state machine as the specification lists them.
\<close>

definition spec_edge :: "TicketStatus \<Rightarrow> TicketStatus \<Rightarrow> bool" where
  "spec_edge a b =
     ((a = PENDING \<and> (b = BRANCHING \<or> b = WORKING))
    \<or> (a = BRANCHING \<and> (b = WORKING \<or> b = ERROR))
    \<or> (a = WORKING \<and> (b = STOPPED \<or> b = CLOSED \<or> b = ERROR))
    \<or> (a = STOPPED \<and> (b = WORKING \<or> b = CLOSED)))"

section \<open>Example inputs\<close>

definition ex_ticket :: Ticket where
  "ex_ticket = \<lparr>ticket_id = ''T-1'', name = ''T-1'', description = ''fix login bug'',
     status = PENDING, createdAt = 1000, startedAt = None, stoppedAt = None,
     closedAt = None, branch = None, error = None, summary = None\<rparr>"

definition ex_store :: TicketConfig where
  "ex_store = \<lparr>tickets = [ex_ticket], lastId = 0\<rparr>"

definition ex_cfg :: ProjectConfig where
  "ex_cfg = \<lparr>baseRepositoryPath = Some ''/repo'', automationPath = Some ''/auto'',
     baseBranch = None, copilotModel = None\<rparr>"


definition ex_world :: world where
  "ex_world = \<lparr>fs = [], trace = []\<rparr>"

definition ex_world1 :: world where
  "ex_world1 = \<lparr>fs = [''/auto/T-1''],
     trace = [Checkout ''/repo'' ''develop'', Pull ''/repo'' ''origin'' ''develop'',
              Branch ''/repo'' ''copilot/T-1'' ''develop'',
              WorktreeAdd ''/repo'' ''/auto/T-1'' ''copilot/T-1'']\<rparr>"

definition ex_create_ok :: create_env where
  "ex_create_ok = \<lparr>checkout_res = None, pull_res = None, worktree_add_res = None\<rparr>"

definition ex_create_fail :: create_env where
  "ex_create_fail = \<lparr>checkout_res = Some ''checkout failed'', pull_res = None,
     worktree_add_res = None\<rparr>"

definition ex_remove_ok :: remove_env where
  "ex_remove_ok = \<lparr>worktree_remove_res = None, rm_res = None\<rparr>"

definition ex_agent_ok :: CopilotCLIResult where
  "ex_agent_ok = \<lparr>cr_success = True, cr_output = ''Copilot completed'', cr_error = None\<rparr>"

definition ex_agent_failed :: CopilotCLIResult where
  "ex_agent_failed = \<lparr>cr_success = False, cr_output = [],
     cr_error = Some ''Process exited with code 1''\<rparr>"

definition ex_resolve_env :: resolve_env where
  "ex_resolve_env = \<lparr>cli_available = True, sdk_available = True, r_create = ex_create_ok,
     copilotResult = ex_agent_ok, status_res = Inr [''src/login.ts''],
     diff_res = Inr ''diff --git a/src/login.ts b/src/login.ts'',
     commit_session = Inr ''Fix login redirect'',
     r_commit = \<lparr>commit_status_res = Inr [''src/login.ts''], add_res = None, commit_res = None\<rparr>,
     summary_session = Inr ''<p>Login fixed</p>'',
     r_test = \<lparr>checkout_branch_res = None, checkout_back_res = None\<rparr>,
     r_remove = ex_remove_ok\<rparr>"

definition ex_opts :: "SimplifiedResolverOptions option" where
  "ex_opts = Some \<lparr>skipValidation = Some False, cleanupOnError = Given True,
     existingWorktree = Some ''/auto/T-1''\<rparr>"

definition commits :: "world \<Rightarrow> (string \<times> string) list" where
  "commits w = concat (map (\<lambda>a. case a of Commit d m \<Rightarrow> [(d, m)] | _ \<Rightarrow> []) (trace w))"

definition ex_env_nochange :: resolve_env where
  "ex_env_nochange = ex_resolve_env\<lparr>status_res := Inr []\<rparr>"

definition ex_ticket_env :: "resolve_env \<Rightarrow> ticket_env" where
  "ex_ticket_env e = \<lparr>t_resolve = e, startedAt_now = 2000, closedAt_now = 3000,
     stop_requested = False\<rparr>"

definition ex_system :: system where
  "ex_system = \<lparr>autopilotRunning = False, autopilotShouldStop = False,
     autopilotCallback = False, events = [], store = Some ex_store, outside = ex_world1,
     status_log = []\<rparr>"


definition ex_env_msg_fails :: resolve_env where
  "ex_env_msg_fails = ex_resolve_env\<lparr>commit_session := Inl ''session failed''\<rparr>"

definition ex_env_no_cli :: resolve_env where
  "ex_env_no_cli = ex_resolve_env\<lparr>cli_available := False\<rparr>"






text \<open>
  The number of tickets the ticket loop attempts, as the stop requests alone determine
  it: \<open>stopped\<close> is the stop flag on entry, \<open>i\<close> the index of the next ticket and the
  last argument the number of tickets left.
\<close>

fun attempts :: "(nat \<Rightarrow> ticket_env) \<Rightarrow> bool \<Rightarrow> nat \<Rightarrow> nat \<Rightarrow> nat" where
  "attempts te stopped i 0 = 0"
| "attempts te stopped i (Suc m) =
     (if stopped then 0 else Suc (attempts te (stop_requested (te i)) (Suc i) m))"


definition ex_ticket2 :: Ticket where
  "ex_ticket2 = \<lparr>ticket_id = ''T-2'', name = ''T-2'', description = ''add logout button'',
     status = PENDING, createdAt = 2000, startedAt = None, stoppedAt = None,
     closedAt = None, branch = None, error = None, summary = None\<rparr>"

definition ex_system2 :: system where
  "ex_system2 = \<lparr>autopilotRunning = False, autopilotShouldStop = False,
     autopilotCallback = False, events = [],
     store = Some \<lparr>tickets = [ex_ticket2, ex_ticket], lastId = 0\<rparr>, outside = ex_world,
     status_log = []\<rparr>"

definition ex_run :: run_env where
  "ex_run = \<lparr>provision_env = (\<lambda>i. ex_create_ok), stop_while_provisioning = False,
     ticket_envs = (\<lambda>i. ex_ticket_env ex_env_no_cli)\<rparr>"

definition ex_run_stop :: run_env where
  "ex_run_stop = \<lparr>provision_env = (\<lambda>i. ex_create_ok), stop_while_provisioning = False,
     ticket_envs = (\<lambda>i. (ex_ticket_env ex_env_no_cli)\<lparr>stop_requested := True\<rparr>)\<rparr>"

text \<open>
  A \<^verbatim>\<open>Commands\<close> instance in the middle of a run on the store of \<open>ex_system2\<close>: the
  run has set its flags and sent its \<^verbatim>\<open>started\<close> update, and awaits the first git
  command of the pre-provisioning loop.
\<close>

definition ex_running :: system where
  "ex_running = \<lparr>autopilotRunning = True, autopilotShouldStop = False,
     autopilotCallback = True,
     events = [Started 2 [(''T-1'', ''T-1''), (''T-2'', ''T-2'')]],
     store = Some \<lparr>tickets = [ex_ticket2, ex_ticket], lastId = 0\<rparr>,
     outside = ex_world,
     status_log = []\<rparr>"


text \<open>Inputs of \<^verbatim>\<open>start\<close>: inside a git repository, outside of one, and a closed ticket.\<close>

definition ex_start_env :: start_env where
  "ex_start_env = \<lparr>isGitRepo_res = True, current_branch_res = None, s_checkout_res = None,
     s_pull_res = None, create_branch_res = None, start_now = 2000, copilot_available = False,
     a_cli_available = False, a_resolve = ex_resolve_env, a_closed_now = 3000\<rparr>"

definition ex_start_no_git :: start_env where
  "ex_start_no_git = ex_start_env\<lparr>isGitRepo_res := False\<rparr>"

definition ex_closed_ticket :: Ticket where
  "ex_closed_ticket = ex_ticket\<lparr>status := CLOSED, closedAt := Some 1500\<rparr>"

definition ex_system_closed :: system where
  "ex_system_closed = ex_system\<lparr>store := Some \<lparr>tickets = [ex_closed_ticket], lastId = 0\<rparr>\<rparr>"


section \<open>Properties of the store\<close>

lemma findIndex_None: "findIndex P xs = None \<longleftrightarrow> (\<forall>x \<in> set xs. \<not> P x)"
  by (induction xs) auto

lemma findIndex_Some:
  "findIndex P xs = Some i \<Longrightarrow> i < length xs \<and> P (xs ! i) \<and> (\<forall>j < i. \<not> P (xs ! j))"
proof (induction xs arbitrary: i)
  case Nil
  then show ?case by simp
next
  case (Cons x xs)
  show ?case
  proof (cases "P x")
    case True
    with Cons.prems show ?thesis by simp
  next
    case False
    with Cons.prems obtain k where k: "findIndex P xs = Some k" "i = Suc k"
      by auto
    from Cons.IH [OF k(1)] False k(2) show ?thesis
      by (auto simp: nth_Cons split: nat.splits)
  qed
qed

lemma stored_simps [simp]:
  "stored None = []" "stored (Some c) = tickets c"
  by (simp_all add: stored_def getAllTickets_def getConfig_def ensureConfigExists_def
      initialConfig_def)

text \<open>
  \<^verbatim>\<open>toLowerCase\<close> on a string with letters inside and outside ASCII: U+00C9 and \<open>T\<close>
  are folded, the multiplication sign U+00D7 is not.
\<close>

lemma toLowerCase_example:
  "toLowerCase [CHR 0xC9, CHR ''T'', CHR ''-'', CHR ''1'', CHR 0xD7]
     = [CHR 0xE9, CHR ''t'', CHR ''-'', CHR ''1'', CHR 0xD7]"
  by (simp add: toLowerCase_def lower_char_def upper_letters_def lower_letters_def)

text \<open>
  C10. \<^verbatim>\<open>Storage.updateTicket\<close> compares ids with \<^verbatim>\<open>===\<close>: for an id that no stored
  ticket has exactly (an existing id in another letter case included), it returns
  normally and every ticket record read back is the one that was there. A store file
  that exists keeps its contents; when there is none, \<^verbatim>\<open>getConfig\<close> creates it with no
  tickets, and that is the file afterwards. \<^verbatim>\<open>Storage.getTicket\<close> is different: it
  finds a ticket whose id or name equals the argument up to letter case.
\<close>

theorem updateTicket_exact_match_only:
  assumes "\<forall>t \<in> set (stored f). ticket_id t \<noteq> i"
  shows "stored (updateTicket i u f) = stored f
     \<and> updateTicket i u f = (case f of None \<Rightarrow> Some initialConfig | Some c \<Rightarrow> Some c)
     \<and> (\<forall>t \<in> set (stored f). toLowerCase (ticket_id t) = toLowerCase i
            \<or> toLowerCase (name t) = toLowerCase i \<longrightarrow>
          (\<exists>t'. fst (getTicket i f) = Some t' \<and> t' \<in> set (stored f)
             \<and> (toLowerCase (ticket_id t') = toLowerCase i
                  \<or> toLowerCase (name t') = toLowerCase i)))"
proof (cases f)
  case None
  then show ?thesis
    by (simp add: updateTicket_def getConfig_def ensureConfigExists_def initialConfig_def)
next
  case (Some c)
  have "findIndex (\<lambda>t. ticket_id t = i) (tickets c) = None"
    using assms Some by (simp add: findIndex_None)
  then have upd: "updateTicket i u f = Some c"
    using Some by (simp add: updateTicket_def getConfig_def ensureConfigExists_def)
  have found: "\<exists>t'. fst (getTicket i f) = Some t' \<and> t' \<in> set (stored f)
             \<and> (toLowerCase (ticket_id t') = toLowerCase i
                  \<or> toLowerCase (name t') = toLowerCase i)"
    if "t \<in> set (stored f)"
      and "toLowerCase (ticket_id t) = toLowerCase i \<or> toLowerCase (name t) = toLowerCase i"
    for t
  proof -
    from that have "find (\<lambda>t. toLowerCase (ticket_id t) = toLowerCase i
               \<or> toLowerCase (name t) = toLowerCase i) (tickets c) \<noteq> None"
      using Some by (auto simp: find_None_iff)
    then obtain t' where t': "find (\<lambda>t. toLowerCase (ticket_id t) = toLowerCase i
               \<or> toLowerCase (name t) = toLowerCase i) (tickets c) = Some t'"
      by auto
    then have "t' \<in> set (tickets c)"
      "toLowerCase (ticket_id t') = toLowerCase i \<or> toLowerCase (name t') = toLowerCase i"
      by (auto simp: find_Some_iff)
    moreover have "fst (getTicket i f) = Some t'"
      using Some t' by (simp add: getTicket_def getAllTickets_def getConfig_def
          ensureConfigExists_def)
    ultimately show ?thesis using Some by simp
  qed
  have "stored (updateTicket i u f) = stored f" using upd Some by simp
  moreover have "updateTicket i u f = (case f of None \<Rightarrow> Some initialConfig | Some c \<Rightarrow> Some c)"
    using upd Some by simp
  ultimately show ?thesis using found by blast
qed

text \<open>
  The ticket \<open>T-1\<close> and the id \<open>t-1\<close>: \<^verbatim>\<open>updateTicket\<close> leaves the file as it is,
  \<^verbatim>\<open>getTicket\<close> finds the ticket.
\<close>

theorem updateTicket_exact_match_only_witness:
  "updateTicket ''t-1'' (no_updates\<lparr>u_status := Some WORKING\<rparr>) (Some ex_store) = Some ex_store
   \<and> fst (getTicket ''t-1'' (Some ex_store)) = Some ex_ticket"
proof -
  have h: "\<forall>t \<in> set (stored (Some ex_store)). ticket_id t \<noteq> ''t-1''"
    by (simp add: ex_store_def ex_ticket_def)
  have g: "fst (getTicket ''t-1'' (Some ex_store)) = Some ex_ticket"
    by (simp add: getTicket_def getAllTickets_def getConfig_def ensureConfigExists_def
        ex_store_def ex_ticket_def toLowerCase_def lower_char_def upper_letters_def
        lower_letters_def)
  show ?thesis
    using h g updateTicket_exact_match_only [OF h, of "no_updates\<lparr>u_status := Some WORKING\<rparr>"]
    by simp
qed

text \<open>
  The claim as stated fails when there is no store file: no ticket has the id, and the
  call leaves a file behind where there was none.
\<close>

theorem updateTicket_creates_missing_store:
  "stored None = []
   \<and> updateTicket ''T-9'' (no_updates\<lparr>u_status := Some WORKING\<rparr>) None
       = Some \<lparr>tickets = [], lastId = 0\<rparr>"
  by (simp add: updateTicket_def getConfig_def ensureConfigExists_def initialConfig_def)


section \<open>Properties of GitManager\<close>

lemma nonempty_Some: "nonempty v = Some s \<Longrightarrow> v = Some s \<and> s \<noteq> []"
  by (auto simp: nonempty_def split: option.splits if_splits)

lemma createWorktree_Inr:
  assumes "createWorktree cfg tid e w = (Inr p, w1)"
  shows "\<exists>root. nonempty (automationPath cfg) = Some root \<and> p = path_join root tid
           \<and> p \<in> set (fs w1)"
  using assms
  by (auto simp: createWorktree_def Let_def perform_def split: option.splits)

lemma worktreeExists_Some:
  "worktreeExists cfg tid w = Some p \<longleftrightarrow>
     (\<exists>root. nonempty (automationPath cfg) = Some root \<and> p = path_join root tid
        \<and> p \<in> set (fs w))"
  by (auto simp: worktreeExists_def split: option.splits)

text \<open>
  Called on its own, \<^verbatim>\<open>createWorktree\<close> does not look for an existing worktree: with
  the paths configured it always starts with a checkout of the base branch.
\<close>

lemma createWorktree_always_runs_git:
  assumes "nonempty (automationPath cfg) \<noteq> None" and "nonempty (baseRepositoryPath cfg) \<noteq> None"
  shows "trace (snd (createWorktree cfg tid e w)) \<noteq> trace w"
  using assms
  by (auto simp: createWorktree_def Let_def perform_def split: option.splits)

text \<open>
  C3. Ensuring a worktree, as the pre-provisioning loop of \<^verbatim>\<open>autopilotMode\<close> does it
  (\<^verbatim>\<open>worktreeExists\<close>, and \<^verbatim>\<open>createWorktree\<close> only when there is none), is idempotent.
  If a worktree exists at the conventional path, that path is returned and the world is
  the same afterwards: no command is issued, no branch creation among them. And after an
  ensure that returned a path, the worktree exists there, so that a second ensure returns
  the same path and issues no command, whatever git would answer.
\<close>

theorem provisionWorktree_idempotent:
  "(worktreeExists cfg tid w = Some p \<longrightarrow> provisionWorktree cfg tid e w = (Inr p, w))
   \<and> (provisionWorktree cfg tid e w = (Inr p, w1) \<longrightarrow>
        worktreeExists cfg tid w1 = Some p \<and> provisionWorktree cfg tid e' w1 = (Inr p, w1))"
proof (intro conjI impI)
  assume "worktreeExists cfg tid w = Some p"
  then show "provisionWorktree cfg tid e w = (Inr p, w)"
    by (simp add: provisionWorktree_def)
next
  assume a: "provisionWorktree cfg tid e w = (Inr p, w1)"
  show ex: "worktreeExists cfg tid w1 = Some p"
  proof (cases "worktreeExists cfg tid w")
    case None
    with a have "createWorktree cfg tid e w = (Inr p, w1)"
      by (simp add: provisionWorktree_def)
    from createWorktree_Inr [OF this] show ?thesis
      by (simp add: worktreeExists_Some)
  next
    case (Some q)
    with a show ?thesis by (simp add: provisionWorktree_def)
  qed
  then show "provisionWorktree cfg tid e' w1 = (Inr p, w1)"
    by (simp add: provisionWorktree_def)
qed

theorem provisionWorktree_idempotent_witness:
  "provisionWorktree ex_cfg ''T-1'' ex_create_ok ex_world = (Inr ''/auto/T-1'', ex_world1)
   \<and> provisionWorktree ex_cfg ''T-1'' ex_create_fail ex_world1 = (Inr ''/auto/T-1'', ex_world1)"
proof -
  have first: "provisionWorktree ex_cfg ''T-1'' ex_create_ok ex_world = (Inr ''/auto/T-1'', ex_world1)"
    by (simp add: provisionWorktree_def worktreeExists_def createWorktree_def ex_cfg_def
        ex_world_def ex_world1_def ex_create_ok_def nonempty_def path_join_def getBaseBranch_def
        perform_def Let_def)
  have second: "provisionWorktree ex_cfg ''T-1'' ex_create_fail ex_world1 = (Inr ''/auto/T-1'', ex_world1)"
    using provisionWorktree_idempotent [of ex_cfg "''T-1''" ex_world "''/auto/T-1''" ex_create_ok
        ex_world1 ex_create_fail] first
    by blast
  from first second show ?thesis by (rule conjI)
qed





section \<open>Properties of the resolution pipeline\<close>

lemmas ex_defs = ex_cfg_def ex_ticket_def ex_store_def ex_world_def ex_world1_def ex_create_ok_def
  ex_remove_ok_def ex_agent_ok_def ex_agent_failed_def ex_resolve_env_def ex_opts_def
  ex_env_nochange_def ex_ticket_env_def ex_system_def

lemmas resolve_defs = resolve_def resolve_try_def resolver_options_def validateConfiguration_def
  acquireWorktree_def resolveTicket_def commit_and_branch_def failure_result_def agent_error_def
  commit_changes_def branch_and_return_def generated_commit_message_def generated_summary_def
  nonempty_def perform_def getCopilotModel_def getBaseBranch_def Let_def

lemmas store_defs = updateTicket_def getConfig_def ensureConfigExists_def saveConfig_def
  getAllTickets_def stored_def spread_def no_updates_def or_else_def lookup_def status_change_def
  Storage_updateTicket_def initialConfig_def

lemma acquireWorktree_nonempty:
  assumes "acquireWorktree cfg ticket options e w = (Inr p, w1)"
  shows "nonempty (Some p) = Some p"
proof (cases "nonempty (existingWorktree options)")
  case None
  with assms have "createWorktree cfg (ticket_id ticket) (r_create e) w = (Inr p, w1)"
    by (simp add: acquireWorktree_def)
  from createWorktree_Inr [OF this] show ?thesis
    by (auto simp: path_join_def nonempty_def)
next
  case (Some q)
  with assms have "q = p" by (simp add: acquireWorktree_def)
  with nonempty_Some [OF Some] show ?thesis by (simp add: nonempty_def)
qed

lemma resolve_after_agent:
  assumes "validateConfiguration cfg (cli_available e) = Inr ()"
      and "acquireWorktree cfg ticket (resolver_options opts) e w = (Inr p, w1)"
      and "cr_success (copilotResult e)"
  shows "resolve cfg ticket opts e w =
     (case commit_and_branch cfg ticket p e
             (perform (RunAgent p (ticket_id ticket) (getCopilotModel cfg)) w1) of
        (Inl m, w3) \<Rightarrow>
          (failure_result ticket (Some p) m,
           if cleanupOnError (resolver_options opts) = Given True
           then snd (removeWorktree cfg p (r_remove e) w3) else w3)
      | (Inr r, w3) \<Rightarrow> (r, w3))"
  using assms acquireWorktree_nonempty [OF assms(2)]
  by (simp add: resolve_def resolve_try_def resolveTicket_def Let_def split: prod.splits sum.splits)

lemma resolve_no_changes:
  assumes "validateConfiguration cfg (cli_available e) = Inr ()"
      and "acquireWorktree cfg ticket (resolver_options opts) e w = (Inr p, w1)"
      and "cr_success (copilotResult e)"
      and "status_res e = Inr []"
  shows "resolve cfg ticket opts e w =
     (\<lparr>r_success = True, r_ticket = ticket, r_worktreePath = Some p, r_hasChanges = False,
       r_testBranch = None, r_commitMessage = None, r_summary = None, r_error = None\<rparr>,
      perform (Status p) (perform (RunAgent p (ticket_id ticket) (getCopilotModel cfg)) w1))"
  using assms(4)
  by (simp add: resolve_after_agent [OF assms(1-3)] commit_and_branch_def Let_def)


lemma find_findIndex: "findIndex P xs = Some k \<Longrightarrow> find P xs = Some (xs ! k)"
  by (induction xs arbitrary: k) (auto split: if_splits)

lemma findIndex_None_find: "findIndex P xs = None \<Longrightarrow> find P xs = None"
  by (induction xs) (auto split: if_splits)

lemma find_update_same:
  "findIndex P xs = Some k \<Longrightarrow> P y \<Longrightarrow> find P (xs[k := y]) = Some y"
  by (induction xs arbitrary: k) (auto split: if_splits)

lemma find_update_other:
  "k < length xs \<Longrightarrow> \<not> Q (xs ! k) \<Longrightarrow> \<not> Q y \<Longrightarrow> find Q (xs[k := y]) = find Q xs"
  by (induction xs arbitrary: k) (auto simp: nth_Cons split: nat.splits)

lemma ticket_id_spread [simp]: "ticket_id (spread t u) = ticket_id t"
  by (simp add: spread_def)

lemma stored_updateTicket:
  "stored (updateTicket i u f) =
     (case findIndex (\<lambda>t. ticket_id t = i) (stored f) of
        None \<Rightarrow> stored f
      | Some k \<Rightarrow> (stored f)[k := spread (stored f ! k) u])"
  by (cases f)
     (simp_all add: updateTicket_def getConfig_def ensureConfigExists_def initialConfig_def
       saveConfig_def split: option.splits)

lemma lookup_updateTicket_same:
  "lookup i (updateTicket i u f) = map_option (\<lambda>t. spread t u) (lookup i f)"
proof (cases "findIndex (\<lambda>t. ticket_id t = i) (stored f)")
  case None
  then show ?thesis
    by (simp add: lookup_def stored_updateTicket findIndex_None_find)
next
  case (Some k)
  from findIndex_Some [OF Some] have "ticket_id (stored f ! k) = i" by simp
  then show ?thesis
    using Some
    by (simp add: lookup_def stored_updateTicket find_findIndex find_update_same)
qed

lemma lookup_updateTicket_other:
  assumes "j \<noteq> i"
  shows "lookup j (updateTicket i u f) = lookup j f"
proof (cases "findIndex (\<lambda>t. ticket_id t = i) (stored f)")
  case None
  then show ?thesis by (simp add: lookup_def stored_updateTicket)
next
  case (Some k)
  from findIndex_Some [OF Some] have k: "k < length (stored f)" "ticket_id (stored f ! k) = i"
    by simp_all
  show ?thesis
    using Some k assms
    by (simp add: lookup_def stored_updateTicket find_update_other)
qed

lemma store_Storage_updateTicket [simp]:
  "store (Storage_updateTicket i u s) = updateTicket i u (store s)"
  "outside (Storage_updateTicket i u s) = outside s"
  "events (Storage_updateTicket i u s) = events s"
  "autopilotRunning (Storage_updateTicket i u s) = autopilotRunning s"
  "autopilotShouldStop (Storage_updateTicket i u s) = autopilotShouldStop s"
  "autopilotCallback (Storage_updateTicket i u s) = autopilotCallback s"
  by (simp_all add: Storage_updateTicket_def)

lemma status_spread: "status (spread t u) = (case u_status u of None \<Rightarrow> status t | Some x \<Rightarrow> x)"
  by (simp add: spread_def)

lemma resolveTicketAutopilot_no_changes:
  assumes "validateConfiguration cfg (cli_available (t_resolve te)) = Inr ()"
      and "acquireWorktree cfg ticket
             (resolver_options (Some \<lparr>skipValidation = Some False, cleanupOnError = Given True,
                                      existingWorktree = existing\<rparr>))
             (t_resolve te) (outside s) = (Inr p, w1)"
      and "cr_success (copilotResult (t_resolve te))"
      and "status_res (t_resolve te) = Inr []"
      and "lookup (ticket_id ticket) (store s) = Some t0"
  shows "o_success (fst (resolveTicketAutopilot cfg ticket existing te s))"
    and "map_option status (lookup (ticket_id ticket)
           (store (snd (resolveTicketAutopilot cfg ticket existing te s)))) = Some CLOSED"
    and "outside (snd (resolveTicketAutopilot cfg ticket existing te s)) =
           perform (Status p) (perform (RunAgent p (ticket_id ticket) (getCopilotModel cfg)) w1)"
proof -
  note r = resolve_no_changes [where w = "outside s", OF assms(1) _ assms(3,4), OF assms(2)]
  show "o_success (fst (resolveTicketAutopilot cfg ticket existing te s))"
    by (simp add: resolveTicketAutopilot_def Let_def r nonempty_def)
  show "map_option status (lookup (ticket_id ticket)
           (store (snd (resolveTicketAutopilot cfg ticket existing te s)))) = Some CLOSED"
    using assms(5)
    by (simp add: resolveTicketAutopilot_def Let_def r nonempty_def lookup_updateTicket_same
        status_spread no_updates_def)
  show "outside (snd (resolveTicketAutopilot cfg ticket existing te s)) =
           perform (Status p) (perform (RunAgent p (ticket_id ticket) (getCopilotModel cfg)) w1)"
    by (simp add: resolveTicketAutopilot_def Let_def r nonempty_def)
qed


text \<open>
  C1, as the code has it. When the agent reports success and \<^verbatim>\<open>git status\<close> lists no
  file, \<^verbatim>\<open>resolve\<close> returns \<open>success = true\<close> with \<open>hasChanges = false\<close>, no commit
  message, no test branch, no summary and no error; after the agent it issues the status
  command and nothing else, so nothing is committed, no test branch is created and the
  worktree stays. Under autopilot the ticket is then closed, not put in error.
\<close>

theorem no_changes_is_success_and_closes:
  assumes "validateConfiguration cfg (cli_available e) = Inr ()"
      and "acquireWorktree cfg ticket (resolver_options opts) e w = (Inr p, w1)"
      and "cr_success (copilotResult e)"
      and "status_res e = Inr []"
  shows "resolve cfg ticket opts e w =
           (\<lparr>r_success = True, r_ticket = ticket, r_worktreePath = Some p, r_hasChanges = False,
             r_testBranch = None, r_commitMessage = None, r_summary = None, r_error = None\<rparr>,
            perform (Status p) (perform (RunAgent p (ticket_id ticket) (getCopilotModel cfg)) w1))
     \<and> (\<forall>te s existing t0.
           t_resolve te = e \<and> outside s = w
           \<and> opts = Some \<lparr>skipValidation = Some False, cleanupOnError = Given True,
                           existingWorktree = existing\<rparr>
           \<and> lookup (ticket_id ticket) (store s) = Some t0 \<longrightarrow>
           o_success (fst (resolveTicketAutopilot cfg ticket existing te s))
           \<and> map_option status (lookup (ticket_id ticket)
                 (store (snd (resolveTicketAutopilot cfg ticket existing te s)))) = Some CLOSED
           \<and> outside (snd (resolveTicketAutopilot cfg ticket existing te s)) =
                 perform (Status p)
                   (perform (RunAgent p (ticket_id ticket) (getCopilotModel cfg)) w1))"
proof (intro conjI allI impI)
  show "resolve cfg ticket opts e w =
           (\<lparr>r_success = True, r_ticket = ticket, r_worktreePath = Some p, r_hasChanges = False,
             r_testBranch = None, r_commitMessage = None, r_summary = None, r_error = None\<rparr>,
            perform (Status p) (perform (RunAgent p (ticket_id ticket) (getCopilotModel cfg)) w1))"
    by (rule resolve_no_changes [OF assms])
next
  fix te :: ticket_env and s :: system and existing :: "string option" and t0 :: Ticket
  assume h: "t_resolve te = e \<and> outside s = w
           \<and> opts = Some \<lparr>skipValidation = Some False, cleanupOnError = Given True,
                           existingWorktree = existing\<rparr>
           \<and> lookup (ticket_id ticket) (store s) = Some t0"
  note c = resolveTicketAutopilot_no_changes [where cfg = cfg and te = te and existing = existing
      and ticket = ticket and s = s and p = p and ?w1.0 = w1 and ?t0.0 = t0]
  from h assms
  show "o_success (fst (resolveTicketAutopilot cfg ticket existing te s))"
    by (intro c(1)) simp_all
  from h assms
  show "map_option status (lookup (ticket_id ticket)
                 (store (snd (resolveTicketAutopilot cfg ticket existing te s)))) = Some CLOSED"
    by (intro c(2)) simp_all
  from h assms
  show "outside (snd (resolveTicketAutopilot cfg ticket existing te s)) =
                 perform (Status p)
                   (perform (RunAgent p (ticket_id ticket) (getCopilotModel cfg)) w1)"
    by (intro c(3)) simp_all
qed

theorem no_changes_is_success_and_closes_witness:
  "resolve ex_cfg ex_ticket ex_opts ex_env_nochange ex_world1 =
     (\<lparr>r_success = True, r_ticket = ex_ticket, r_worktreePath = Some ''/auto/T-1'',
       r_hasChanges = False, r_testBranch = None, r_commitMessage = None, r_summary = None,
       r_error = None\<rparr>,
      ex_world1\<lparr>trace := trace ex_world1 @ [RunAgent ''/auto/T-1'' ''T-1'' ''gpt-4o'',
                                               Status ''/auto/T-1'']\<rparr>)
   \<and> map_option status (lookup ''T-1''
        (store (snd (resolveTicketAutopilot ex_cfg ex_ticket (Some ''/auto/T-1'')
           (ex_ticket_env ex_env_nochange) ex_system)))) = Some CLOSED"
proof -
  have v: "validateConfiguration ex_cfg (cli_available ex_env_nochange) = Inr ()"
    by (simp add: validateConfiguration_def ex_defs nonempty_def)
  have a: "acquireWorktree ex_cfg ex_ticket (resolver_options ex_opts) ex_env_nochange ex_world1
             = (Inr ''/auto/T-1'', ex_world1)"
    by (simp add: acquireWorktree_def resolver_options_def ex_opts_def nonempty_def)
  have g: "cr_success (copilotResult ex_env_nochange)"
    by (simp add: ex_defs)
  have st: "status_res ex_env_nochange = Inr []"
    by (simp add: ex_defs)
  have l: "lookup (ticket_id ex_ticket) (store ex_system) = Some ex_ticket"
    by (simp add: lookup_def ex_system_def ex_store_def)
  have i: "ticket_id ex_ticket = ''T-1''" by (simp add: ex_ticket_def)
  note t = no_changes_is_success_and_closes [OF v a g st]
  from t [THEN conjunct1]
  have first: "resolve ex_cfg ex_ticket ex_opts ex_env_nochange ex_world1 =
     (\<lparr>r_success = True, r_ticket = ex_ticket, r_worktreePath = Some ''/auto/T-1'',
       r_hasChanges = False, r_testBranch = None, r_commitMessage = None, r_summary = None,
       r_error = None\<rparr>,
      ex_world1\<lparr>trace := trace ex_world1 @ [RunAgent ''/auto/T-1'' ''T-1'' ''gpt-4o'',
                                               Status ''/auto/T-1'']\<rparr>)"
    by (simp add: i perform_def getCopilotModel_def ex_cfg_def nonempty_def)
  from t [THEN conjunct2, rule_format, of "ex_ticket_env ex_env_nochange" ex_system
      "Some ''/auto/T-1''" ex_ticket] l
  have second: "map_option status (lookup ''T-1''
        (store (snd (resolveTicketAutopilot ex_cfg ex_ticket (Some ''/auto/T-1'')
           (ex_ticket_env ex_env_nochange) ex_system)))) = Some CLOSED"
    by (simp add: i ex_ticket_env_def ex_system_def ex_opts_def)
  from first second show ?thesis by (rule conjI)
qed


text \<open>
  The claim as stated fails: on an unchanged worktree the result is a success and the
  autopilot closes the ticket.
\<close>

theorem no_changes_counterexample:
  "r_success (fst (resolve ex_cfg ex_ticket ex_opts ex_env_nochange ex_world1))
   \<and> map status (stored (store (snd (resolveTicketAutopilot ex_cfg ex_ticket (Some ''/auto/T-1'')
          (ex_ticket_env ex_env_nochange) ex_system)))) = [CLOSED]"
  by (simp add: resolveTicketAutopilot_def resolve_defs ex_defs store_defs)




lemma commits_perform:
  "commits (perform a w) = commits w @ (case a of Commit d m \<Rightarrow> [(d, m)] | _ \<Rightarrow> [])"
  by (simp add: commits_def perform_def)

lemma commits_fs [simp]: "commits (w\<lparr>fs := x\<rparr>) = commits w"
  by (simp add: commits_def)

lemma commits_removeWorktree: "commits (snd (removeWorktree cfg p e w)) = commits w"
  by (simp add: removeWorktree_def Let_def commits_perform split: option.splits)

lemma commits_createTestBranch: "commits (snd (createTestBranch cfg tid e w)) = commits w"
  by (simp add: createTestBranch_def Let_def commits_perform split: option.splits)

lemma commits_createWorktree: "commits (snd (createWorktree cfg tid e w)) = commits w"
  by (simp add: createWorktree_def Let_def commits_perform split: option.splits)

lemma commits_acquireWorktree: "commits (snd (acquireWorktree cfg t ops e w)) = commits w"
  by (simp add: acquireWorktree_def commits_createWorktree split: option.splits)

lemma commits_commitInWorktree:
  assumes "commit_status_res e = Inr files" "files \<noteq> []" "add_res e = None"
  shows "commits (snd (commitInWorktree p tid msg e w)) =
           commits w @ [(p, case nonempty msg of Some m \<Rightarrow> m | None \<Rightarrow> default_commit_message tid)]"
  using assms
  by (simp add: commitInWorktree_def Let_def commits_perform split: option.splits)

lemma generated_commit_message_failed:
  assumes "commit_session e = Inl err"
  shows "generated_commit_message ticket diff e =
           (if sdk_available e \<and> diff \<noteq> []
            then Some (''[feat]: Implement functionality for task('' @ ticket_id ticket @ '')'')
            else None)"
  using assms by (simp add: generated_commit_message_def generateCommitMessage_def)

lemma commits_branch_and_return:
  "commits (snd (branch_and_return cfg ticket p e cm sm w)) = commits w"
  using commits_createTestBranch [of cfg "ticket_id ticket" "r_test e" w]
  by (cases "createTestBranch cfg (ticket_id ticket) (r_test e) w")
     (auto simp: branch_and_return_def split: sum.splits)

lemma nonempty_generated_commit_message:
  "nonempty (generated_commit_message ticket diff e) = generated_commit_message ticket diff e"
  by (simp add: generated_commit_message_def nonempty_def split: sum.splits)

lemma commits_after_commit:
  assumes "commit_status_res (r_commit e) = Inr files" "files \<noteq> []" "add_res (r_commit e) = None"
      and "commits w3 = commits w" and "nonempty msg = msg"
      and "\<And>w4. commits (f w4) = commits w4"
  shows "commits (snd (case commitInWorktree p (ticket_id ticket) msg (r_commit e) w3 of
                         (Inl m, w4) \<Rightarrow> (Inl m, w4)
                       | (Inr c, w4) \<Rightarrow> branch_and_return cfg ticket p e msg sm (f w4))) =
           commits w @ [(p, case msg of Some m \<Rightarrow> m
                            | None \<Rightarrow> default_commit_message (ticket_id ticket))]"
proof -
  obtain r4 w4 where cw: "commitInWorktree p (ticket_id ticket) msg (r_commit e) w3 = (r4, w4)"
    by (cases "commitInWorktree p (ticket_id ticket) msg (r_commit e) w3")
  have c4: "commits w4 = commits w @ [(p, case msg of Some m \<Rightarrow> m
                            | None \<Rightarrow> default_commit_message (ticket_id ticket))]"
    using commits_commitInWorktree [OF assms(1-3), of p "ticket_id ticket" msg w3] cw assms(4,5)
    by simp
  show ?thesis
    by (cases r4) (simp_all add: cw c4 commits_branch_and_return assms(6))
qed

lemma commits_commit_changes:
  assumes "commit_status_res (r_commit e) = Inr files" "files \<noteq> []" "add_res (r_commit e) = None"
  shows "commits (snd (commit_changes cfg ticket p e w)) =
           commits w @ [(p, case generated_commit_message ticket
                                   (case diff_res e of Inl m \<Rightarrow> [] | Inr d \<Rightarrow> d) e of
                              Some m \<Rightarrow> m
                            | None \<Rightarrow> default_commit_message (ticket_id ticket))]"
  unfolding commit_changes_def getWorktreeDiff_def Let_def prod.case
  by (rule commits_after_commit [OF assms])
     (simp_all add: commits_perform nonempty_generated_commit_message)

lemma commits_commit_and_branch:
  assumes "status_res e = Inr files" "files \<noteq> []"
      and "commit_status_res (r_commit e) = Inr files" "add_res (r_commit e) = None"
  shows "commits (snd (commit_and_branch cfg ticket p e w)) =
           commits w @ [(p, case generated_commit_message ticket
                                   (case diff_res e of Inl m \<Rightarrow> [] | Inr d \<Rightarrow> d) e of
                              Some m \<Rightarrow> m
                            | None \<Rightarrow> default_commit_message (ticket_id ticket))]"
  using assms(1,2)
  by (simp add: commit_and_branch_def Let_def commits_commit_changes [OF assms(3,2,4)]
      commits_perform)

lemma commits_resolve_after_agent:
  assumes "validateConfiguration cfg (cli_available e) = Inr ()"
      and "acquireWorktree cfg ticket (resolver_options opts) e w = (Inr p, w1)"
      and "cr_success (copilotResult e)"
  shows "commits (snd (resolve cfg ticket opts e w)) =
           commits (snd (commit_and_branch cfg ticket p e
             (perform (RunAgent p (ticket_id ticket) (getCopilotModel cfg)) w1)))"
  by (simp add: resolve_after_agent [OF assms] commits_removeWorktree
      split: prod.splits sum.splits)

text \<open>
  C6, as the code has it. In a run with changes present where \<^verbatim>\<open>git status\<close> and
  \<^verbatim>\<open>git add\<close> succeed in \<^verbatim>\<open>commitInWorktree\<close>, a failing commit-message session does
  not stop the commit: exactly one commit is issued, in the worktree. When the generator
  was asked (an SDK is there and the diff is not empty) it catches its own failure and
  returns a fixed text, so the message is
  \<^verbatim>\<open>[feat]: Implement functionality for task({ticketId})\<close>; when it was not asked the
  message is the default \<^verbatim>\<open>[feat]: Implement functionality for {ticketId} task\<close>.
\<close>

theorem commit_message_when_generation_fails:
  assumes "validateConfiguration cfg (cli_available e) = Inr ()"
      and "acquireWorktree cfg ticket (resolver_options opts) e w = (Inr p, w1)"
      and "cr_success (copilotResult e)"
      and "status_res e = Inr files" and "files \<noteq> []"
      and "commit_status_res (r_commit e) = Inr files" and "add_res (r_commit e) = None"
      and "commit_session e = Inl err"
  shows "commits (snd (resolve cfg ticket opts e w)) =
           commits w @ [(p, if sdk_available e \<and> (case diff_res e of Inl m \<Rightarrow> [] | Inr d \<Rightarrow> d) \<noteq> []
                then ''[feat]: Implement functionality for task('' @ ticket_id ticket @ '')''
                else default_commit_message (ticket_id ticket))]"
proof -
  have "commits w1 = commits w"
    using commits_acquireWorktree [of cfg ticket "resolver_options opts" e w] assms(2) by simp
  then show ?thesis
    by (simp add: commits_resolve_after_agent [OF assms(1-3)]
        commits_commit_and_branch [OF assms(4-7)] commits_perform
        generated_commit_message_failed [OF assms(8)])
qed

theorem commit_message_when_generation_fails_witness:
  "commits (snd (resolve ex_cfg ex_ticket ex_opts ex_env_msg_fails ex_world1)) =
     [(''/auto/T-1'', ''[feat]: Implement functionality for task(T-1)'')]"
proof -
  have v: "validateConfiguration ex_cfg (cli_available ex_env_msg_fails) = Inr ()"
    by (simp add: validateConfiguration_def ex_defs ex_env_msg_fails_def nonempty_def)
  have a: "acquireWorktree ex_cfg ex_ticket (resolver_options ex_opts) ex_env_msg_fails ex_world1
             = (Inr ''/auto/T-1'', ex_world1)"
    by (simp add: acquireWorktree_def resolver_options_def ex_opts_def nonempty_def)
  have g: "cr_success (copilotResult ex_env_msg_fails)"
    by (simp add: ex_defs ex_env_msg_fails_def)
  have st: "status_res ex_env_msg_fails = Inr [''src/login.ts'']" "[''src/login.ts''] \<noteq> []"
    "commit_status_res (r_commit ex_env_msg_fails) = Inr [''src/login.ts'']"
    "add_res (r_commit ex_env_msg_fails) = None"
    "commit_session ex_env_msg_fails = Inl ''session failed''"
    by (simp_all add: ex_defs ex_env_msg_fails_def)
  show ?thesis
    using commit_message_when_generation_fails [OF v a g st]
    by (simp add: ex_defs ex_env_msg_fails_def commits_def)
qed

text \<open>
  The claim as stated fails: with the SDK there and a diff, a failing session gives a
  commit whose message is not the default one.
\<close>

theorem commit_message_default_counterexample:
  "commits (snd (resolve ex_cfg ex_ticket ex_opts ex_env_msg_fails ex_world1)) \<noteq>
     [(''/auto/T-1'', default_commit_message ''T-1'')]"
  by (simp add: resolve_defs ex_defs ex_env_msg_fails_def commits_def default_commit_message_def
      commitInWorktree_def createTestBranch_def getWorktreeDiff_def generateCommitMessage_def
      generateTicketSummary_def)













section \<open>Properties of the autopilot\<close>

lemma sendUpdate_fields [simp]:
  "autopilotRunning (sendUpdate u s) = autopilotRunning s"
  "autopilotShouldStop (sendUpdate u s) = autopilotShouldStop s"
  "autopilotCallback (sendUpdate u s) = autopilotCallback s"
  "store (sendUpdate u s) = store s"
  "outside (sendUpdate u s) = outside s"
  "status_log (sendUpdate u s) = status_log s"
  by (simp_all add: sendUpdate_def)

lemma events_sendUpdate:
  "events (sendUpdate u s) = events s @ (if autopilotCallback s then [u] else [])"
  by (simp add: sendUpdate_def)

lemma stopAutopilot_fields [simp]:
  "autopilotRunning (stopAutopilot s) = autopilotRunning s"
  "autopilotCallback (stopAutopilot s) = autopilotCallback s"
  "store (stopAutopilot s) = store s"
  "outside (stopAutopilot s) = outside s"
  "events (stopAutopilot s) = events s"
  "status_log (stopAutopilot s) = status_log s"
  by (simp_all add: stopAutopilot_def)

lemma shouldStop_stopAutopilot:
  "autopilotShouldStop (stopAutopilot s) = (autopilotRunning s \<or> autopilotShouldStop s)"
  by (simp add: stopAutopilot_def)

lemma status_log_Storage_updateTicket:
  "status_log (Storage_updateTicket i u s) =
     status_log s @ (case lookup i (store s) of
                       None \<Rightarrow> []
                     | Some t \<Rightarrow> [(i, status t, case u_status u of None \<Rightarrow> status t | Some x \<Rightarrow> x)])"
  by (simp add: Storage_updateTicket_def status_change_def lookup_updateTicket_same status_spread
      split: option.splits)

text \<open>The two writes of \<open>resolveTicketAutopilot\<close>.\<close>

lemma resolveTicketAutopilot_shape:
  "\<exists>u w' x. snd (resolveTicketAutopilot cfg ticket existing e s) =
      Storage_updateTicket (ticket_id ticket) u
        ((Storage_updateTicket (ticket_id ticket)
            (no_updates\<lparr>u_status := Some WORKING, u_startedAt := Some (startedAt_now e)\<rparr>) s)
           \<lparr>outside := w'\<rparr>)
      \<and> u_status u = Some x \<and> (x = CLOSED \<or> x = ERROR)
      \<and> (o_success (fst (resolveTicketAutopilot cfg ticket existing e s)) \<longleftrightarrow> x = CLOSED)"
proof -
  obtain result w' where r: "resolve cfg ticket
                (Some \<lparr>skipValidation = Some False, cleanupOnError = Given True,
                       existingWorktree = existing\<rparr>)
                (t_resolve e) (outside s) = (result, w')"
    by (cases "resolve cfg ticket
                (Some \<lparr>skipValidation = Some False, cleanupOnError = Given True,
                       existingWorktree = existing\<rparr>)
                (t_resolve e) (outside s)")
  let ?s2 = "(Storage_updateTicket (ticket_id ticket)
            (no_updates\<lparr>u_status := Some WORKING, u_startedAt := Some (startedAt_now e)\<rparr>) s)
           \<lparr>outside := w'\<rparr>"
  let ?u1 = "no_updates\<lparr>u_summary := r_summary result, u_status := Some CLOSED,
                          u_closedAt := Some (closedAt_now e)\<rparr>"
  let ?u2 = "no_updates\<lparr>u_status := Some CLOSED, u_closedAt := Some (closedAt_now e)\<rparr>"
  let ?u3 = "no_updates\<lparr>u_status := Some ERROR,
                          u_error := Some (case nonempty (r_error result) of
                                             Some m \<Rightarrow> m
                                           | None \<Rightarrow> ''Unknown error'')\<rparr>"
  have unfold: "resolveTicketAutopilot cfg ticket existing e s =
      (\<lparr>o_success = r_success result, o_summary = r_summary result, o_error = r_error result\<rparr>,
       if r_success result \<and> nonempty (r_summary result) \<noteq> None
       then Storage_updateTicket (ticket_id ticket) ?u1 ?s2
       else if r_success result then Storage_updateTicket (ticket_id ticket) ?u2 ?s2
       else Storage_updateTicket (ticket_id ticket) ?u3 ?s2)"
    by (simp add: resolveTicketAutopilot_def Let_def r)
  consider (summary) "r_success result" "nonempty (r_summary result) \<noteq> None"
    | (closed) "r_success result" "nonempty (r_summary result) = None"
    | (failed) "\<not> r_success result"
    by blast
  then show ?thesis
  proof cases
    case summary
    then have "snd (resolveTicketAutopilot cfg ticket existing e s) =
        Storage_updateTicket (ticket_id ticket) ?u1 ?s2
      \<and> u_status ?u1 = Some CLOSED \<and> (CLOSED = CLOSED \<or> CLOSED = ERROR)
      \<and> (o_success (fst (resolveTicketAutopilot cfg ticket existing e s)) \<longleftrightarrow> CLOSED = CLOSED)"
      by (simp add: unfold)
    then show ?thesis by blast
  next
    case closed
    then have "snd (resolveTicketAutopilot cfg ticket existing e s) =
        Storage_updateTicket (ticket_id ticket) ?u2 ?s2
      \<and> u_status ?u2 = Some CLOSED \<and> (CLOSED = CLOSED \<or> CLOSED = ERROR)
      \<and> (o_success (fst (resolveTicketAutopilot cfg ticket existing e s)) \<longleftrightarrow> CLOSED = CLOSED)"
      by (simp add: unfold)
    then show ?thesis by blast
  next
    case failed
    then have "snd (resolveTicketAutopilot cfg ticket existing e s) =
        Storage_updateTicket (ticket_id ticket) ?u3 ?s2
      \<and> u_status ?u3 = Some ERROR \<and> (ERROR = CLOSED \<or> ERROR = ERROR)
      \<and> (o_success (fst (resolveTicketAutopilot cfg ticket existing e s)) \<longleftrightarrow> ERROR = CLOSED)"
      by (simp add: unfold)
    then show ?thesis by blast
  qed
qed

lemma resolveTicketAutopilot_fields [simp]:
  "autopilotRunning (snd (resolveTicketAutopilot cfg ticket existing e s)) = autopilotRunning s"
  "autopilotShouldStop (snd (resolveTicketAutopilot cfg ticket existing e s)) = autopilotShouldStop s"
  "autopilotCallback (snd (resolveTicketAutopilot cfg ticket existing e s)) = autopilotCallback s"
  "events (snd (resolveTicketAutopilot cfg ticket existing e s)) = events s"
  using resolveTicketAutopilot_shape [of cfg ticket existing e s]
  by auto

lemma resolveTicketAutopilot_lookup_other:
  assumes "j \<noteq> ticket_id ticket"
  shows "lookup j (store (snd (resolveTicketAutopilot cfg ticket existing e s))) = lookup j (store s)"
  using resolveTicketAutopilot_shape [of cfg ticket existing e s] assms
  by (auto simp: lookup_updateTicket_other)

lemma resolveTicketAutopilot_log:
  assumes "lookup (ticket_id ticket) (store s) = Some t0"
  shows "\<exists>x. (x = CLOSED \<or> x = ERROR)
           \<and> (o_success (fst (resolveTicketAutopilot cfg ticket existing e s)) \<longleftrightarrow> x = CLOSED)
           \<and> status_log (snd (resolveTicketAutopilot cfg ticket existing e s)) =
               status_log s @ [(ticket_id ticket, status t0, WORKING), (ticket_id ticket, WORKING, x)]
           \<and> map_option status (lookup (ticket_id ticket)
                (store (snd (resolveTicketAutopilot cfg ticket existing e s)))) = Some x"
proof -
  from resolveTicketAutopilot_shape [of cfg ticket existing e s]
  obtain u w' x where sh: "snd (resolveTicketAutopilot cfg ticket existing e s) =
      Storage_updateTicket (ticket_id ticket) u
        ((Storage_updateTicket (ticket_id ticket)
            (no_updates\<lparr>u_status := Some WORKING, u_startedAt := Some (startedAt_now e)\<rparr>) s)
           \<lparr>outside := w'\<rparr>)"
    and x: "u_status u = Some x" "x = CLOSED \<or> x = ERROR"
      "o_success (fst (resolveTicketAutopilot cfg ticket existing e s)) \<longleftrightarrow> x = CLOSED"
    by blast
  show ?thesis
    apply (rule exI [of _ x])
    apply (simp only: sh)
    using assms x
    apply (simp add: status_log_Storage_updateTicket lookup_updateTicket_same status_spread
        no_updates_def)
    done
qed


lemma process_ticket_unfold:
  "process_ticket cfg te n wm i t (s, good, bad) =
     (let s1 = sendUpdate (Processing (i + 1) n (ticket_id t, name t)) s;
          rs = resolveTicketAutopilot cfg t (wm (ticket_id t)) (te i) s1;
          s3 = (if stop_requested (te i) then stopAutopilot (snd rs) else snd rs)
      in if o_success (fst rs)
         then (sendUpdate (TicketCompleted (ticket_id t, name t) (i + 1) n) s3,
               good @ [\<lparr>tr_ticket = t, tr_success = True, tr_error = None,
                         tr_summary = o_summary (fst rs)\<rparr>], bad)
         else (sendUpdate (TicketFailed (ticket_id t, name t) (o_error (fst rs)) (i + 1) n) s3,
               good, bad @ [\<lparr>tr_ticket = t, tr_success = False, tr_error = o_error (fst rs),
                              tr_summary = None\<rparr>]))"
  by (simp add: process_ticket_def Let_def split: prod.splits)

lemma process_ticket_fields:
  "autopilotRunning (fst (process_ticket cfg te n wm i t (s, good, bad))) = autopilotRunning s"
  "autopilotCallback (fst (process_ticket cfg te n wm i t (s, good, bad))) = autopilotCallback s"
  "autopilotShouldStop (fst (process_ticket cfg te n wm i t (s, good, bad))) =
     (autopilotShouldStop s \<or> (stop_requested (te i) \<and> autopilotRunning s))"
  by (auto simp: process_ticket_unfold Let_def shouldStop_stopAutopilot)

lemma process_ticket_events:
  "\<exists>u. events (fst (process_ticket cfg te n wm i t (s, good, bad))) =
          events s @ (if autopilotCallback s
                      then [Processing (i + 1) n (ticket_id t, name t), u] else [])
       \<and> processed [u] = [] \<and> u \<noteq> Cancelled"
proof (cases "o_success (fst (resolveTicketAutopilot cfg t (wm (ticket_id t)) (te i)
                 (sendUpdate (Processing (i + 1) n (ticket_id t, name t)) s)))")
  case True
  show ?thesis
    using True
    by (intro exI [of _ "TicketCompleted (ticket_id t, name t) (i + 1) n"])
       (simp add: process_ticket_unfold Let_def events_sendUpdate)
next
  case False
  show ?thesis
    using False
    by (intro exI [of _ "TicketFailed (ticket_id t, name t)
          (o_error (fst (resolveTicketAutopilot cfg t (wm (ticket_id t)) (te i)
                 (sendUpdate (Processing (i + 1) n (ticket_id t, name t)) s)))) (i + 1) n"])
       (simp add: process_ticket_unfold Let_def events_sendUpdate)
qed

lemma process_ticket_lookup_other:
  assumes "j \<noteq> ticket_id t"
  shows "lookup j (store (fst (process_ticket cfg te n wm i t (s, good, bad)))) = lookup j (store s)"
  using assms
  by (simp add: process_ticket_unfold Let_def resolveTicketAutopilot_lookup_other)

lemma process_ticket_results:
  "\<exists>r. tr_ticket r = t
     \<and> ((fst (snd (process_ticket cfg te n wm i t (s, good, bad))) = good @ [r]
          \<and> snd (snd (process_ticket cfg te n wm i t (s, good, bad))) = bad)
        \<or> (fst (snd (process_ticket cfg te n wm i t (s, good, bad))) = good
          \<and> snd (snd (process_ticket cfg te n wm i t (s, good, bad))) = bad @ [r]))"
  by (simp add: process_ticket_unfold Let_def)

lemma process_ticket_log:
  assumes "lookup (ticket_id t) (store s) = Some t0"
  shows "\<exists>x. (x = CLOSED \<or> x = ERROR)
           \<and> status_log (fst (process_ticket cfg te n wm i t (s, good, bad))) =
               status_log s @ [(ticket_id t, status t0, WORKING), (ticket_id t, WORKING, x)]
           \<and> map_option status (lookup (ticket_id t)
                (store (fst (process_ticket cfg te n wm i t (s, good, bad))))) = Some x"
proof -
  let ?s1 = "sendUpdate (Processing (i + 1) n (ticket_id t, name t)) s"
  from assms have "lookup (ticket_id t) (store ?s1) = Some t0" by simp
  from resolveTicketAutopilot_log [OF this, of cfg "wm (ticket_id t)" "te i"]
  obtain x where "x = CLOSED \<or> x = ERROR"
     "status_log (snd (resolveTicketAutopilot cfg t (wm (ticket_id t)) (te i) ?s1)) =
               status_log s @ [(ticket_id t, status t0, WORKING), (ticket_id t, WORKING, x)]"
     "map_option status (lookup (ticket_id t)
                (store (snd (resolveTicketAutopilot cfg t (wm (ticket_id t)) (te i) ?s1)))) = Some x"
    by auto
  then show ?thesis
    by (intro exI [of _ x]) (simp add: process_ticket_unfold Let_def)
qed


lemma processed_append [simp]: "processed (xs @ ys) = processed xs @ processed ys"
  by (induction xs rule: processed.induct) simp_all

lemma attempts_le: "attempts te b i m \<le> m"
  by (induction m arbitrary: b i) simp_all

lemma loop_fields:
  assumes "autopilotRunning s"
  shows "autopilotRunning (fst (ticket_loop cfg te n wm i ts (s, good, bad)))
    \<and> autopilotCallback (fst (ticket_loop cfg te n wm i ts (s, good, bad))) = autopilotCallback s
    \<and> autopilotShouldStop (fst (ticket_loop cfg te n wm i ts (s, good, bad))) =
        (autopilotShouldStop s
         \<or> (\<exists>m < attempts te (autopilotShouldStop s) i (length ts). stop_requested (te (i + m))))"
  using assms
proof (induction ts arbitrary: i s good bad)
  case Nil
  then show ?case by simp
next
  case (Cons t ts)
  show ?case
  proof (cases "autopilotShouldStop s")
    case True
    with Cons.prems show ?thesis by simp
  next
    case False
    obtain s1 g1 b1 where pt: "process_ticket cfg te n wm i t (s, good, bad) = (s1, g1, b1)"
      by (cases "process_ticket cfg te n wm i t (s, good, bad)")
    from process_ticket_fields [of cfg te n wm i t s good bad] pt Cons.prems False
    have s1: "autopilotRunning s1" "autopilotCallback s1 = autopilotCallback s"
      "autopilotShouldStop s1 = stop_requested (te i)"
      by simp_all
    have ex: "(stop_requested (te i)
          \<or> (\<exists>m < attempts te (stop_requested (te i)) (Suc i) (length ts).
                stop_requested (te (Suc i + m))))
        = (\<exists>m < Suc (attempts te (stop_requested (te i)) (Suc i) (length ts)).
                stop_requested (te (i + m)))"
      by (auto simp: less_Suc_eq_0_disj)
    from Cons.IH [OF s1(1), of "Suc i" g1 b1] s1 False pt ex
    show ?thesis by simp
  qed
qed

lemma loop_events:
  assumes "autopilotRunning s"
  shows "\<exists>evs. events (fst (ticket_loop cfg te n wm i ts (s, good, bad))) = events s @ evs
     \<and> (\<not> autopilotCallback s \<longrightarrow> evs = [])
     \<and> (autopilotCallback s \<longrightarrow>
          processed evs = map (\<lambda>t. (ticket_id t, name t))
                            (take (attempts te (autopilotShouldStop s) i (length ts)) ts)
          \<and> (Cancelled \<in> set evs \<longleftrightarrow> attempts te (autopilotShouldStop s) i (length ts) < length ts))"
  using assms
proof (induction ts arbitrary: i s good bad)
  case Nil
  then show ?case by simp
next
  case (Cons t ts)
  show ?case
  proof (cases "autopilotShouldStop s")
    case True
    then show ?thesis by (simp add: events_sendUpdate)
  next
    case False
    obtain s1 g1 b1 where pt: "process_ticket cfg te n wm i t (s, good, bad) = (s1, g1, b1)"
      by (cases "process_ticket cfg te n wm i t (s, good, bad)")
    from process_ticket_fields [of cfg te n wm i t s good bad] pt Cons.prems False
    have s1: "autopilotRunning s1" "autopilotCallback s1 = autopilotCallback s"
      "autopilotShouldStop s1 = stop_requested (te i)"
      by simp_all
    from process_ticket_events [of cfg te n wm i t s good bad] pt
    obtain u where u: "events s1 = events s @ (if autopilotCallback s
                      then [Processing (i + 1) n (ticket_id t, name t), u] else [])"
      "processed [u] = []" "u \<noteq> Cancelled"
      by auto
    from Cons.IH [OF s1(1), of "Suc i" g1 b1]
    obtain evs where evs: "events (fst (ticket_loop cfg te n wm (Suc i) ts (s1, g1, b1))) = events s1 @ evs"
      "\<not> autopilotCallback s1 \<longrightarrow> evs = []"
      "autopilotCallback s1 \<longrightarrow>
          processed evs = map (\<lambda>t. (ticket_id t, name t))
                            (take (attempts te (autopilotShouldStop s1) (Suc i) (length ts)) ts)
          \<and> (Cancelled \<in> set evs \<longleftrightarrow> attempts te (autopilotShouldStop s1) (Suc i) (length ts) < length ts)"
      by blast
    have pu: "processed (u # evs) = processed evs"
      using u(2) processed_append [of "[u]" evs] by simp
    show ?thesis
      apply (rule exI [of _ "(if autopilotCallback s
                      then [Processing (i + 1) n (ticket_id t, name t), u] else []) @ evs"])
      using False pt evs u(1,3) s1 pu
      apply (auto)
      done
  qed
qed

lemma loop_lookup:
  assumes "autopilotRunning s"
      and "j \<notin> ticket_id ` set (take (attempts te (autopilotShouldStop s) i (length ts)) ts)"
  shows "lookup j (store (fst (ticket_loop cfg te n wm i ts (s, good, bad)))) = lookup j (store s)"
  using assms
proof (induction ts arbitrary: i s good bad)
  case Nil
  then show ?case by simp
next
  case (Cons t ts)
  show ?case
  proof (cases "autopilotShouldStop s")
    case True
    then show ?thesis by simp
  next
    case False
    obtain s1 g1 b1 where pt: "process_ticket cfg te n wm i t (s, good, bad) = (s1, g1, b1)"
      by (cases "process_ticket cfg te n wm i t (s, good, bad)")
    from process_ticket_fields [of cfg te n wm i t s good bad] pt Cons.prems False
    have s1: "autopilotRunning s1" "autopilotShouldStop s1 = stop_requested (te i)"
      by simp_all
    from Cons.prems(2) False
    have j: "j \<noteq> ticket_id t"
      "j \<notin> ticket_id ` set (take (attempts te (autopilotShouldStop s1) (Suc i) (length ts)) ts)"
      by (simp_all add: s1)
    from process_ticket_lookup_other [OF j(1), of cfg te n wm i s good bad] pt
    have "lookup j (store s1) = lookup j (store s)" by simp
    with Cons.IH [OF s1(1) j(2), of g1 b1] False pt
    show ?thesis by simp
  qed
qed

lemma loop_results:
  assumes "autopilotRunning s"
  shows "mset (map tr_ticket (fst (snd (ticket_loop cfg te n wm i ts (s, good, bad)))
                              @ snd (snd (ticket_loop cfg te n wm i ts (s, good, bad)))))
     = mset (map tr_ticket (good @ bad))
       + mset (take (attempts te (autopilotShouldStop s) i (length ts)) ts)"
  using assms
proof (induction ts arbitrary: i s good bad)
  case Nil
  then show ?case by simp
next
  case (Cons t ts)
  show ?case
  proof (cases "autopilotShouldStop s")
    case True
    then show ?thesis by simp
  next
    case False
    obtain s1 g1 b1 where pt: "process_ticket cfg te n wm i t (s, good, bad) = (s1, g1, b1)"
      by (cases "process_ticket cfg te n wm i t (s, good, bad)")
    from process_ticket_fields [of cfg te n wm i t s good bad] pt Cons.prems False
    have s1: "autopilotRunning s1" "autopilotShouldStop s1 = stop_requested (te i)"
      by simp_all
    from process_ticket_results [of t cfg te n wm i s good bad] pt
    have r: "mset (map tr_ticket (g1 @ b1)) = mset (map tr_ticket (good @ bad)) + {#t#}"
      by auto
    from Cons.IH [OF s1(1), of "Suc i" g1 b1] False pt r s1
    show ?thesis by simp
  qed
qed


lemma attempts_all:
  assumes "\<not> b" and "\<forall>m. Suc m < len \<longrightarrow> \<not> stop_requested (te (i + m))"
  shows "attempts te b i len = len"
  using assms
proof (induction len arbitrary: b i)
  case 0
  then show ?case by simp
next
  case (Suc len)
  show ?case
  proof (cases len)
    case 0
    with Suc.prems show ?thesis by simp
  next
    case (Suc l)
    with Suc.prems(2) have "\<not> stop_requested (te i)"
      by (metis add.right_neutral Suc_less_eq zero_less_Suc)
    moreover from Suc.prems(2) have "\<forall>m. Suc m < len \<longrightarrow> \<not> stop_requested (te (Suc i + m))"
      by (metis Suc_less_eq add_Suc_shift)
    ultimately show ?thesis
      using Suc.IH [of "stop_requested (te i)" "Suc i"] Suc.prems(1) by simp
  qed
qed

lemma attempts_stop_at:
  assumes "\<not> b" and "j < len" and "stop_requested (te (i + j))"
      and "\<forall>m < j. \<not> stop_requested (te (i + m))"
  shows "attempts te b i len = Suc j"
  using assms
proof (induction j arbitrary: b i len)
  case 0
  then obtain l where "len = Suc l" by (cases len) auto
  with 0 show ?case by (cases l) simp_all
next
  case (Suc j)
  then obtain l where l: "len = Suc l" by (cases len) auto
  from Suc.prems(4) have n0: "\<not> stop_requested (te i)"
    by (metis add.right_neutral zero_less_Suc)
  from Suc.prems(4) have rest: "\<forall>m < j. \<not> stop_requested (te (Suc i + m))"
    by (metis Suc_less_eq add_Suc_shift)
  from Suc.prems(3) have at: "stop_requested (te (Suc i + j))" by simp
  from Suc.prems(2) l have "j < l" by simp
  from Suc.IH [OF _ this at rest, of "stop_requested (te i)"] n0 l Suc.prems(1)
  show ?case by simp
qed

lemma insert_sorted_insort:
  "insert_sorted by_createdAt x ys = insort_key createdAt x ys"
  by (induction ys) (simp_all add: by_createdAt_def)

lemma sort_with_sort_key: "sort_with by_createdAt xs = sort_key createdAt xs"
  by (induction xs) (simp_all add: insert_sorted_insort)

lemma pendingTickets_sort_key:
  "pendingTickets ts = sort_key createdAt (filter (\<lambda>t. status t = PENDING) ts)"
  by (simp add: pendingTickets_def sort_with_sort_key)

lemma filter_distinct_key:
  assumes "distinct (map f xs)" and "k \<in> set xs"
  shows "filter (\<lambda>x. f k = f x) xs = [k]"
  using assms
proof (induction xs)
  case Nil
  then show ?case by simp
next
  case (Cons x xs)
  show ?case
  proof (cases "x = k")
    case True
    with Cons.prems(1) have "\<forall>y \<in> set xs. f k \<noteq> f y" by auto
    then have "filter (\<lambda>x. f k = f x) xs = []" by (simp add: filter_empty_conv)
    with True show ?thesis by simp
  next
    case False
    with Cons.prems have kx: "k \<in> set xs" by simp
    from Cons.prems(1) have "f x \<notin> f ` set xs" by simp
    with kx have "f k \<noteq> f x" by (metis imageI)
    with Cons kx show ?thesis by simp
  qed
qed

lemma sort_key_permutation:
  assumes "mset xs = mset ys" and "distinct (map f ys)"
  shows "sort_key f xs = sort_key f ys"
proof (rule properties_for_sort_key)
  show "mset (sort_key f ys) = mset xs" using assms(1) by simp
  show "sorted (map f (sort_key f ys))" by simp
  fix k assume "k \<in> set (sort_key f ys)"
  then have k: "k \<in> set ys" by simp
  have dx: "distinct (map f xs)"
  proof -
    from assms(1) have "mset (map f xs) = mset (map f ys)" by simp
    from mset_eq_imp_distinct_iff [OF this] assms(2) show ?thesis by simp
  qed
  have ds: "distinct (map f (sort_key f ys))"
  proof -
    have "mset (map f (sort_key f ys)) = mset (map f ys)" by simp
    from mset_eq_imp_distinct_iff [OF this] assms(2) show ?thesis by simp
  qed
  from k assms(1) have kx: "k \<in> set xs" by (metis mset_eq_setD)
  show "filter (\<lambda>x. f k = f x) (sort_key f ys) = filter (\<lambda>x. f k = f x) xs"
    using filter_distinct_key [OF ds, of k] filter_distinct_key [OF dx kx] k by simp
qed


lemma getAllTickets_stored [simp]:
  "fst (getAllTickets f) = stored f" "stored (snd (getAllTickets f)) = stored f"
  by (cases f; simp add: getAllTickets_def getConfig_def ensureConfigExists_def initialConfig_def)+

lemma finally_reset_fields [simp]:
  "events (finally_reset s) = events s" "store (finally_reset s) = store s"
  "outside (finally_reset s) = outside s" "status_log (finally_reset s) = status_log s"
  by (simp_all add: finally_reset_def)

lemma prepare_run_fields [simp]:
  "autopilotRunning (snd (prepare_run cfg e pending s)) = autopilotRunning s"
  "autopilotCallback (snd (prepare_run cfg e pending s)) = autopilotCallback s"
  "autopilotShouldStop (snd (prepare_run cfg e pending s)) =
     (autopilotShouldStop s \<or> (stop_while_provisioning e \<and> autopilotRunning s))"
  "store (snd (prepare_run cfg e pending s)) = store s"
  "status_log (snd (prepare_run cfg e pending s)) = status_log s"
  "events (snd (prepare_run cfg e pending s)) =
     events s @ (if autopilotCallback s
                 then [Started (length pending) (map (\<lambda>t. (ticket_id t, name t)) pending)]
                 else [])"
  by (auto simp: prepare_run_def Let_def split_beta shouldStop_stopAutopilot events_sendUpdate)

text \<open>The state in which the run reads the store, and the state in which it enters the loop.\<close>

lemma autopilotMode_unfold:
  assumes "\<not> autopilotRunning s" and "pendingTickets (stored (store s)) \<noteq> []"
  shows "autopilotMode cfg callback e s =
     (let sel = pendingTickets (stored (store s));
          s2 = s\<lparr>autopilotRunning := True, autopilotShouldStop := False,
                 autopilotCallback := callback, store := snd (getAllTickets (store s))\<rparr>;
          pr = prepare_run cfg e sel s2;
          lp = ticket_loop cfg (ticket_envs e) (length sel) (fst pr) 0 sel (snd pr, [], []);
          result = \<lparr>completed = fst (snd lp), failed = snd (snd lp),
                    cancelled = autopilotShouldStop (fst lp)\<rparr>
      in (Inr result, finally_reset (sendUpdate (Completed result) (fst lp))))"
  using assms
  by (simp add: autopilotMode_def Let_def split_beta)

lemma autopilotMode_no_tickets:
  assumes "\<not> autopilotRunning s" and "pendingTickets (stored (store s)) = []"
  shows "events (snd (autopilotMode cfg callback e s)) = events s @ (if callback then [NoTickets] else [])"
    and "status_log (snd (autopilotMode cfg callback e s)) = status_log s"
    and "stored (store (snd (autopilotMode cfg callback e s))) = stored (store s)"
  using assms
  by (simp_all add: autopilotMode_def Let_def split_beta events_sendUpdate)

text \<open>
  On one \<^verbatim>\<open>Commands\<close> instance the guard holds: when the flag \<^verbatim>\<open>autopilotRunning\<close>
  of the instance is set, \<^verbatim>\<open>autopilotMode\<close> throws \<^verbatim>\<open>Autopilot is already running\<close>
  and leaves everything as it was: the flags, the store, the world (no worktree is
  provisioned), the events and the log of status writes.
\<close>

lemma autopilotMode_running_instance:
  assumes "autopilotRunning s"
  shows "autopilotMode cfg callback e s = (Inl ''Autopilot is already running'', s)"
  using assms by (simp add: autopilotMode_def)


lemma autopilot_run_state:
  fixes s :: system and callback :: bool and cfg :: ProjectConfig and e :: run_env
  assumes "\<not> autopilotRunning s" and "pendingTickets (stored (store s)) \<noteq> []"
  defines "sel \<equiv> pendingTickets (stored (store s))"
  defines "s2 \<equiv> s\<lparr>autopilotRunning := True, autopilotShouldStop := False,
                 autopilotCallback := callback, store := snd (getAllTickets (store s))\<rparr>"
  defines "pr \<equiv> prepare_run cfg e sel s2"
  defines "lp \<equiv> ticket_loop cfg (ticket_envs e) (length sel) (fst pr) 0 sel (snd pr, [], [])"
  shows "autopilotRunning (snd pr)" "autopilotCallback (snd pr) = callback"
    "autopilotShouldStop (snd pr) = stop_while_provisioning e"
    "events (snd pr) = events s @ (if callback
        then [Started (length sel) (map (\<lambda>t. (ticket_id t, name t)) sel)] else [])"
    "stored (store (snd pr)) = stored (store s)"
    "status_log (snd pr) = status_log s"
    "fst (autopilotMode cfg callback e s) =
       Inr \<lparr>completed = fst (snd lp), failed = snd (snd lp),
            cancelled = autopilotShouldStop (fst lp)\<rparr>"
    "events (snd (autopilotMode cfg callback e s)) =
       events (fst lp) @ (if callback
         then [Completed \<lparr>completed = fst (snd lp), failed = snd (snd lp),
                          cancelled = autopilotShouldStop (fst lp)\<rparr>] else [])"
    "store (snd (autopilotMode cfg callback e s)) = store (fst lp)"
    "status_log (snd (autopilotMode cfg callback e s)) = status_log (fst lp)"
proof -
  show a: "autopilotRunning (snd pr)" "autopilotCallback (snd pr) = callback"
    "autopilotShouldStop (snd pr) = stop_while_provisioning e"
    "events (snd pr) = events s @ (if callback
        then [Started (length sel) (map (\<lambda>t. (ticket_id t, name t)) sel)] else [])"
    "stored (store (snd pr)) = stored (store s)"
    "status_log (snd pr) = status_log s"
    by (simp_all add: pr_def s2_def)
  from loop_fields [OF a(1), of cfg "ticket_envs e" "length sel" "fst pr" 0 sel "[]" "[]"]
  have cb: "autopilotCallback (fst lp) = callback"
    unfolding lp_def [symmetric] using a(2) by simp
  note u = autopilotMode_unfold [OF assms(1,2), of cfg callback e, folded sel_def,
      unfolded Let_def, folded s2_def, folded pr_def, folded lp_def]
  show "fst (autopilotMode cfg callback e s) =
       Inr \<lparr>completed = fst (snd lp), failed = snd (snd lp),
            cancelled = autopilotShouldStop (fst lp)\<rparr>"
    by (simp add: u)
  show "events (snd (autopilotMode cfg callback e s)) =
       events (fst lp) @ (if callback
         then [Completed \<lparr>completed = fst (snd lp), failed = snd (snd lp),
                          cancelled = autopilotShouldStop (fst lp)\<rparr>] else [])"
    by (simp add: u events_sendUpdate cb)
  show "store (snd (autopilotMode cfg callback e s)) = store (fst lp)"
    "status_log (snd (autopilotMode cfg callback e s)) = status_log (fst lp)"
    by (simp_all add: u)
qed

lemma autopilot_processed:
  assumes "\<not> autopilotRunning s"
  shows "\<exists>evs. events (snd (autopilotMode cfg True e s)) = events s @ evs
     \<and> processed evs = map (\<lambda>t. (ticket_id t, name t))
         (take (attempts (ticket_envs e) (stop_while_provisioning e) 0
                  (length (pendingTickets (stored (store s)))))
            (pendingTickets (stored (store s))))
     \<and> (pendingTickets (stored (store s)) \<noteq> [] \<longrightarrow>
          (Cancelled \<in> set evs \<longleftrightarrow>
            attempts (ticket_envs e) (stop_while_provisioning e) 0
              (length (pendingTickets (stored (store s))))
              < length (pendingTickets (stored (store s)))))"
proof (cases "pendingTickets (stored (store s)) = []")
  case True
  with autopilotMode_no_tickets(1) [OF assms True, of cfg True e] show ?thesis by simp
next
  case False
  let ?sel = "pendingTickets (stored (store s))"
  let ?k = "attempts (ticket_envs e) (stop_while_provisioning e) 0 (length ?sel)"
  let ?pr = "prepare_run cfg e ?sel (s\<lparr>autopilotRunning := True, autopilotShouldStop := False,
                 autopilotCallback := True, store := snd (getAllTickets (store s))\<rparr>)"
  let ?lp = "ticket_loop cfg (ticket_envs e) (length ?sel) (fst ?pr) 0 ?sel (snd ?pr, [], [])"
  note st = autopilot_run_state [OF assms False, where callback = True and cfg = cfg and e = e]
  from loop_events [OF st(1), of cfg "ticket_envs e" "length ?sel" "fst ?pr" 0 ?sel "[]" "[]"]
  obtain evs where evs: "events (fst ?lp) = events s
        @ [Started (length ?sel) (map (\<lambda>t. (ticket_id t, name t)) ?sel)] @ evs"
      "processed evs = map (\<lambda>t. (ticket_id t, name t)) (take ?k ?sel)"
      "Cancelled \<in> set evs \<longleftrightarrow> ?k < length ?sel"
    unfolding st(2,3,4) by auto
  show ?thesis
    apply (rule exI [of _ "Started (length ?sel) (map (\<lambda>t. (ticket_id t, name t)) ?sel) # evs
        @ [Completed \<lparr>completed = fst (snd ?lp), failed = snd (snd ?lp),
                        cancelled = autopilotShouldStop (fst ?lp)\<rparr>]"])
    using evs False
    apply (simp add: st(8))
    done
qed

text \<open>
  C4, as the code has it. The tickets a run selects are exactly the pending ones of the
  store at the start of the run, in ascending \<open>createdAt\<close> order, tickets with the
  same time stamp in their store order; with distinct time stamps the selection is the
  same for every order of the store. The tickets are attempted in that order: the
  \<^verbatim>\<open>processing\<close> updates name a prefix of the selection, and the whole selection
  when no stop is requested before the last ticket is reached.
\<close>

theorem autopilot_selection_and_order:
  assumes "\<not> autopilotRunning s"
  shows "mset (pendingTickets (stored (store s)))
           = mset (filter (\<lambda>t. status t = PENDING) (stored (store s)))
     \<and> sorted (map createdAt (pendingTickets (stored (store s))))
     \<and> (\<forall>k. filter (\<lambda>t. createdAt t = k) (pendingTickets (stored (store s)))
             = filter (\<lambda>t. createdAt t = k) (filter (\<lambda>t. status t = PENDING) (stored (store s))))
     \<and> (\<forall>ts. mset ts = mset (stored (store s))
              \<and> distinct (map createdAt (filter (\<lambda>t. status t = PENDING) (stored (store s))))
            \<longrightarrow> pendingTickets ts = pendingTickets (stored (store s)))
     \<and> (\<exists>k \<le> length (pendingTickets (stored (store s))).
           processed (events (snd (autopilotMode cfg True e s)))
             = processed (events s)
               @ map (\<lambda>t. (ticket_id t, name t)) (take k (pendingTickets (stored (store s)))))
     \<and> (\<not> stop_while_provisioning e
          \<and> (\<forall>i. Suc i < length (pendingTickets (stored (store s)))
                   \<longrightarrow> \<not> stop_requested (ticket_envs e i)) \<longrightarrow>
           processed (events (snd (autopilotMode cfg True e s)))
             = processed (events s)
               @ map (\<lambda>t. (ticket_id t, name t)) (pendingTickets (stored (store s))))"
proof (intro conjI allI impI)
  let ?sel = "pendingTickets (stored (store s))"
  let ?k = "attempts (ticket_envs e) (stop_while_provisioning e) 0 (length ?sel)"
  show "mset ?sel = mset (filter (\<lambda>t. status t = PENDING) (stored (store s)))"
    by (simp add: pendingTickets_sort_key)
  show "sorted (map createdAt ?sel)"
    by (simp add: pendingTickets_sort_key)
  show "filter (\<lambda>t. createdAt t = k) ?sel
          = filter (\<lambda>t. createdAt t = k) (filter (\<lambda>t. status t = PENDING) (stored (store s)))" for k
    unfolding pendingTickets_sort_key by (rule sort_key_stable)
  show "pendingTickets ts = ?sel"
    if "mset ts = mset (stored (store s))
        \<and> distinct (map createdAt (filter (\<lambda>t. status t = PENDING) (stored (store s))))" for ts
  proof -
    from that have m: "mset ts = mset (stored (store s))"
      and d: "distinct (map createdAt (filter (\<lambda>t. status t = PENDING) (stored (store s))))"
      by blast+
    have "mset (filter (\<lambda>t. status t = PENDING) ts)
        = mset (filter (\<lambda>t. status t = PENDING) (stored (store s)))"
      by (simp only: mset_filter m)
    then have "sort_key createdAt (filter (\<lambda>t. status t = PENDING) ts)
        = sort_key createdAt (filter (\<lambda>t. status t = PENDING) (stored (store s)))"
      using d by (rule sort_key_permutation)
    then show ?thesis
      by (simp only: pendingTickets_sort_key)
  qed
  have run: "processed (events (snd (autopilotMode cfg True e s)))
      = processed (events s) @ map (\<lambda>t. (ticket_id t, name t)) (take ?k ?sel)"
    using autopilot_processed [OF assms, of cfg e] by auto
  show "\<exists>k \<le> length ?sel. processed (events (snd (autopilotMode cfg True e s)))
             = processed (events s) @ map (\<lambda>t. (ticket_id t, name t)) (take k ?sel)"
    using run attempts_le [of "ticket_envs e" "stop_while_provisioning e" 0 "length ?sel"]
    by blast
  show "processed (events (snd (autopilotMode cfg True e s)))
             = processed (events s) @ map (\<lambda>t. (ticket_id t, name t)) ?sel"
    if "\<not> stop_while_provisioning e
          \<and> (\<forall>i. Suc i < length ?sel \<longrightarrow> \<not> stop_requested (ticket_envs e i))"
  proof -
    from that have "?k = length ?sel"
      by (intro attempts_all) simp_all
    then show ?thesis by (simp add: run)
  qed
qed


lemma ex_pending2:
  "pendingTickets (stored (store ex_system2)) = [ex_ticket, ex_ticket2]"
  by (simp add: ex_system2_def pendingTickets_def by_createdAt_def ex_ticket_def ex_ticket2_def)

theorem autopilot_selection_and_order_witness:
  "pendingTickets (stored (store ex_system2)) = [ex_ticket, ex_ticket2]
   \<and> pendingTickets [ex_ticket, ex_ticket2] = pendingTickets (stored (store ex_system2))
   \<and> processed (events (snd (autopilotMode ex_cfg True ex_run ex_system2)))
       = [(''T-1'', ''T-1''), (''T-2'', ''T-2'')]"
proof -
  have r: "\<not> autopilotRunning ex_system2" by (simp add: ex_system2_def)
  note t = autopilot_selection_and_order [OF r, of ex_cfg ex_run]
  have ns: "\<not> stop_while_provisioning ex_run
          \<and> (\<forall>i. Suc i < length (pendingTickets (stored (store ex_system2)))
                   \<longrightarrow> \<not> stop_requested (ticket_envs ex_run i))"
    by (simp add: ex_run_def ex_ticket_env_def)
  have p: "mset [ex_ticket, ex_ticket2] = mset (stored (store ex_system2))
      \<and> distinct (map createdAt (filter (\<lambda>t. status t = PENDING) (stored (store ex_system2))))"
    by (simp add: ex_system2_def ex_ticket_def ex_ticket2_def)
  from t ns have "processed (events (snd (autopilotMode ex_cfg True ex_run ex_system2)))
             = processed (events ex_system2)
               @ map (\<lambda>t. (ticket_id t, name t)) (pendingTickets (stored (store ex_system2)))"
    by blast
  moreover from t p have "pendingTickets [ex_ticket, ex_ticket2]
      = pendingTickets (stored (store ex_system2))"
    by blast
  ultimately show ?thesis
    by (simp add: ex_pending2) (simp add: ex_system2_def ex_ticket_def ex_ticket2_def)
qed

text \<open>
  The claim as stated fails for a run that is stopped: stop is requested while the first
  of two pending tickets is processed, and the second pending ticket is never attempted.
\<close>

theorem autopilot_cancelled_run_counterexample:
  "processed (events (snd (autopilotMode ex_cfg True ex_run_stop ex_system2)))
     = [(''T-1'', ''T-1'')]
   \<and> map ticket_id (filter (\<lambda>t. status t = PENDING) (stored (store ex_system2)))
       = [''T-2'', ''T-1'']"
proof -
  have r: "\<not> autopilotRunning ex_system2" by (simp add: ex_system2_def)
  have k: "attempts (ticket_envs ex_run_stop) (stop_while_provisioning ex_run_stop) 0
             (length [ex_ticket, ex_ticket2]) = 1"
    by (simp add: ex_run_stop_def ex_ticket_env_def)
  from autopilot_processed [OF r, of ex_cfg ex_run_stop]
  obtain evs where evs: "events (snd (autopilotMode ex_cfg True ex_run_stop ex_system2))
        = events ex_system2 @ evs"
    "processed evs = map (\<lambda>t. (ticket_id t, name t))
         (take (attempts (ticket_envs ex_run_stop) (stop_while_provisioning ex_run_stop) 0
                  (length (pendingTickets (stored (store ex_system2)))))
            (pendingTickets (stored (store ex_system2))))"
    by blast
  have e0: "events ex_system2 = []" by (simp add: ex_system2_def)
  have "processed (events (snd (autopilotMode ex_cfg True ex_run_stop ex_system2)))
     = [(''T-1'', ''T-1'')]"
    by (simp add: evs(1) e0 evs(2) [unfolded ex_pending2, unfolded k] ex_ticket_def)
  then show ?thesis
    by (simp add: ex_system2_def ex_ticket_def ex_ticket2_def)
qed


lemma loop_result_flags:
  assumes "\<forall>x \<in> set good. tr_success x" and "\<forall>x \<in> set bad. \<not> tr_success x"
  shows "(\<forall>x \<in> set (fst (snd (ticket_loop cfg te n wm i ts (s, good, bad)))). tr_success x)
     \<and> (\<forall>x \<in> set (snd (snd (ticket_loop cfg te n wm i ts (s, good, bad)))). \<not> tr_success x)"
  using assms
proof (induction ts arbitrary: i s good bad)
  case Nil
  then show ?case by simp
next
  case (Cons t ts)
  show ?case
  proof (cases "autopilotShouldStop s")
    case True
    with Cons.prems show ?thesis by simp
  next
    case False
    obtain s1 g1 b1 where pt: "process_ticket cfg te n wm i t (s, good, bad) = (s1, g1, b1)"
      by (cases "process_ticket cfg te n wm i t (s, good, bad)")
    then have "(\<forall>x \<in> set g1. tr_success x) \<and> (\<forall>x \<in> set b1. \<not> tr_success x)"
      using Cons.prems
      by (auto simp: process_ticket_unfold Let_def split: if_splits)
    with Cons.IH [of g1 b1 "Suc i" s1] False pt show ?thesis by simp
  qed
qed

lemma find_distinct_key:
  assumes "distinct (map f xs)" and "t \<in> set xs"
  shows "find (\<lambda>x. f x = f t) xs = Some t"
  using assms
proof (induction xs)
  case Nil
  then show ?case by simp
next
  case (Cons x xs)
  show ?case
  proof (cases "x = t")
    case True
    then show ?thesis by simp
  next
    case False
    with Cons.prems have tx: "t \<in> set xs" by simp
    from Cons.prems(1) have "f x \<notin> f ` set xs" by simp
    with tx have "f x \<noteq> f t" by (metis imageI)
    with Cons tx show ?thesis by simp
  qed
qed

lemma lookup_distinct:
  assumes "distinct (map ticket_id (stored f))" and "t \<in> set (stored f)"
  shows "lookup (ticket_id t) f = Some t"
  unfolding lookup_def using assms by (rule find_distinct_key)

lemma set_pendingTickets:
  "set (pendingTickets ts) = {t \<in> set ts. status t = PENDING}"
  by (simp add: pendingTickets_sort_key)

lemma distinct_pendingTickets:
  assumes "distinct (map ticket_id ts)"
  shows "distinct (map ticket_id (pendingTickets ts))"
proof -
  have "mset (map ticket_id (pendingTickets ts))
      = mset (map ticket_id (filter (\<lambda>t. status t = PENDING) ts))"
    by (simp add: pendingTickets_sort_key)
  from mset_eq_imp_distinct_iff [OF this] assms show ?thesis
    by (simp add: distinct_map_filter)
qed

lemma take_drop_disjoint_ids:
  assumes "distinct (map f xs)" and "t \<in> set (drop k xs)"
  shows "f t \<notin> f ` set (take k xs)"
proof -
  have "distinct (map f (take k xs) @ map f (drop k xs))"
    using assms(1) by (simp add: map_append [symmetric] del: map_append)
  then have "set (map f (take k xs)) \<inter> set (map f (drop k xs)) = {}"
    by (simp only: distinct_append)
  with assms(2) show ?thesis by auto
qed


lemma loop_log:
  assumes "autopilotRunning s" and "distinct (map ticket_id ts)"
      and "\<forall>t \<in> set ts. \<exists>t0. lookup (ticket_id t) (store s) = Some t0 \<and> status t0 = PENDING"
  shows "(\<exists>l. status_log (fst (ticket_loop cfg te n wm i ts (s, good, bad))) = status_log s @ l
           \<and> (\<forall>mv \<in> set l. snd mv \<in> {(PENDING, WORKING), (WORKING, CLOSED), (WORKING, ERROR)}))
     \<and> (\<forall>t \<in> set (take (attempts te (autopilotShouldStop s) i (length ts)) ts).
           map_option status (lookup (ticket_id t)
              (store (fst (ticket_loop cfg te n wm i ts (s, good, bad))))) \<in> {Some CLOSED, Some ERROR})"
  using assms
proof (induction ts arbitrary: i s good bad)
  case Nil
  then show ?case by simp
next
  case (Cons t ts)
  show ?case
  proof (cases "autopilotShouldStop s")
    case True
    then show ?thesis by simp
  next
    case False
    let ?k = "attempts te (stop_requested (te i)) (Suc i) (length ts)"
    obtain s1 g1 b1 where pt: "process_ticket cfg te n wm i t (s, good, bad) = (s1, g1, b1)"
      by (cases "process_ticket cfg te n wm i t (s, good, bad)")
    from process_ticket_fields [of cfg te n wm i t s good bad] pt Cons.prems(1) False
    have s1: "autopilotRunning s1" "autopilotShouldStop s1 = stop_requested (te i)"
      by simp_all
    from Cons.prems(3) obtain t0 where t0: "lookup (ticket_id t) (store s) = Some t0"
      "status t0 = PENDING"
      by auto
    from process_ticket_log [OF t0(1), of cfg te n wm i good bad] pt t0(2)
    obtain x where x: "x = CLOSED \<or> x = ERROR"
      "status_log s1 = status_log s @ [(ticket_id t, PENDING, WORKING), (ticket_id t, WORKING, x)]"
      "map_option status (lookup (ticket_id t) (store s1)) = Some x"
      by auto
    from Cons.prems(2) have d: "distinct (map ticket_id ts)" "ticket_id t \<notin> ticket_id ` set ts"
      by simp_all
    have other: "lookup (ticket_id t') (store s1) = lookup (ticket_id t') (store s)"
      if "t' \<in> set ts" for t'
    proof -
      from that d(2) have "ticket_id t' \<noteq> ticket_id t" by (metis imageI)
      from process_ticket_lookup_other [OF this, of cfg te n wm i s good bad] pt
      show ?thesis by simp
    qed
    with Cons.prems(3)
    have p1: "\<forall>t \<in> set ts. \<exists>t0. lookup (ticket_id t) (store s1) = Some t0 \<and> status t0 = PENDING"
      by simp
    from Cons.IH [OF s1(1) d(1) p1, of "Suc i" g1 b1]
    obtain l where l: "status_log (fst (ticket_loop cfg te n wm (Suc i) ts (s1, g1, b1)))
          = status_log s1 @ l"
      "\<forall>mv \<in> set l. snd mv \<in> {(PENDING, WORKING), (WORKING, CLOSED), (WORKING, ERROR)}"
      and fin: "\<forall>t \<in> set (take ?k ts).
           map_option status (lookup (ticket_id t)
              (store (fst (ticket_loop cfg te n wm (Suc i) ts (s1, g1, b1))))) \<in> {Some CLOSED, Some ERROR}"
      unfolding s1(2) by blast
    have "ticket_id t \<notin> ticket_id ` set (take ?k ts)"
      using d(2) by (meson image_mono in_mono set_take_subset)
    from loop_lookup [OF s1(1), of "ticket_id t" te "Suc i" ts cfg n wm g1 b1] this
    have tfin: "lookup (ticket_id t) (store (fst (ticket_loop cfg te n wm (Suc i) ts (s1, g1, b1))))
        = lookup (ticket_id t) (store s1)"
      by (simp add: s1(2))
    have lp: "ticket_loop cfg te n wm i (t # ts) (s, good, bad)
        = ticket_loop cfg te n wm (Suc i) ts (s1, g1, b1)"
      using False pt by simp
    have k: "attempts te (autopilotShouldStop s) i (length (t # ts)) = Suc ?k"
      using False by simp
    show ?thesis
      unfolding lp k
    proof (intro conjI)
      show "\<exists>l. status_log (fst (ticket_loop cfg te n wm (Suc i) ts (s1, g1, b1))) = status_log s @ l
           \<and> (\<forall>mv \<in> set l. snd mv \<in> {(PENDING, WORKING), (WORKING, CLOSED), (WORKING, ERROR)})"
        using l x(1,2)
        by (intro exI [of _ "[(ticket_id t, PENDING, WORKING), (ticket_id t, WORKING, x)] @ l"])
           auto
      show "\<forall>t \<in> set (take (Suc ?k) (t # ts)).
           map_option status (lookup (ticket_id t)
              (store (fst (ticket_loop cfg te n wm (Suc i) ts (s1, g1, b1))))) \<in> {Some CLOSED, Some ERROR}"
        using fin tfin x(1,3) by auto
    qed
  qed
qed


lemma lookup_cong_stored: "stored f = stored g \<Longrightarrow> lookup j f = lookup j g"
  by (simp add: lookup_def)

lemma lookup_getAllTickets [simp]: "lookup j (snd (getAllTickets f)) = lookup j f"
  by (simp add: lookup_def)

lemma autopilot_run_summary:
  fixes s :: system and callback :: bool and cfg :: ProjectConfig and e :: run_env
  assumes "\<not> autopilotRunning s" and "pendingTickets (stored (store s)) \<noteq> []"
      and "distinct (map ticket_id (stored (store s)))"
  defines "sel \<equiv> pendingTickets (stored (store s))"
  defines "k \<equiv> attempts (ticket_envs e) (stop_while_provisioning e) 0 (length sel)"
  defines "s' \<equiv> snd (autopilotMode cfg callback e s)"
  shows "\<exists>r. fst (autopilotMode cfg callback e s) = Inr r
           \<and> cancelled r = (stop_while_provisioning e \<or> (\<exists>m < k. stop_requested (ticket_envs e m)))
           \<and> mset (map tr_ticket (completed r @ failed r)) = mset (take k sel)
           \<and> (\<forall>x \<in> set (completed r). tr_success x) \<and> (\<forall>x \<in> set (failed r). \<not> tr_success x)"
    and "\<forall>t \<in> set (drop k sel). status t = PENDING \<and> lookup (ticket_id t) (store s') = Some t"
    and "\<forall>t \<in> set (take k sel).
           map_option status (lookup (ticket_id t) (store s')) \<in> {Some CLOSED, Some ERROR}"
    and "\<exists>l. status_log s' = status_log s @ l
           \<and> (\<forall>mv \<in> set l. snd mv \<in> {(PENDING, WORKING), (WORKING, CLOSED), (WORKING, ERROR)})"
proof -
  let ?pr = "prepare_run cfg e sel (s\<lparr>autopilotRunning := True, autopilotShouldStop := False,
                 autopilotCallback := callback, store := snd (getAllTickets (store s))\<rparr>)"
  let ?lp = "ticket_loop cfg (ticket_envs e) (length sel) (fst ?pr) 0 sel (snd ?pr, [], [])"
  note st = autopilot_run_state [OF assms(1,2), where callback = callback and cfg = cfg and e = e,
      folded sel_def]
  have lk: "lookup j (store (snd ?pr)) = lookup j (store s)" for j
    by (rule lookup_cong_stored) (rule st(5))
  have sel_in: "t \<in> set (stored (store s))" "status t = PENDING" if "t \<in> set sel" for t
    using that by (simp_all add: sel_def set_pendingTickets)
  have sel_lookup: "lookup (ticket_id t) (store s) = Some t" if "t \<in> set sel" for t
    using lookup_distinct [OF assms(3) sel_in(1) [OF that]] .
  have dsel: "distinct (map ticket_id sel)"
    unfolding sel_def using assms(3) by (rule distinct_pendingTickets)
  have pre: "\<forall>t \<in> set sel. \<exists>t0. lookup (ticket_id t) (store (snd ?pr)) = Some t0 \<and> status t0 = PENDING"
    using sel_lookup sel_in(2) by (simp add: lk)
  note fl = loop_fields [OF st(1), of cfg "ticket_envs e" "length sel" "fst ?pr" 0 sel "[]" "[]",
      unfolded st(3), folded k_def]
  note rs = loop_results [OF st(1), of cfg "ticket_envs e" "length sel" "fst ?pr" 0 sel "[]" "[]",
      unfolded st(3), folded k_def]
  note rf = loop_result_flags [of "[]" "[]" cfg "ticket_envs e" "length sel" "fst ?pr" 0 sel "snd ?pr"]
  note lg = loop_log [OF st(1) dsel pre, of cfg "ticket_envs e" "length sel" "fst ?pr" 0 "[]" "[]",
      unfolded st(3), folded k_def]
  show "\<exists>r. fst (autopilotMode cfg callback e s) = Inr r
           \<and> cancelled r = (stop_while_provisioning e \<or> (\<exists>m < k. stop_requested (ticket_envs e m)))
           \<and> mset (map tr_ticket (completed r @ failed r)) = mset (take k sel)
           \<and> (\<forall>x \<in> set (completed r). tr_success x) \<and> (\<forall>x \<in> set (failed r). \<not> tr_success x)"
    using fl rs rf
    by (intro exI [of _ "\<lparr>completed = fst (snd ?lp), failed = snd (snd ?lp),
            cancelled = autopilotShouldStop (fst ?lp)\<rparr>"])
       (simp add: st(7))
  show "\<forall>t \<in> set (drop k sel). status t = PENDING \<and> lookup (ticket_id t) (store s') = Some t"
  proof
    fix t assume t: "t \<in> set (drop k sel)"
    then have ts: "t \<in> set sel" by (rule in_set_dropD)
    from take_drop_disjoint_ids [OF dsel t]
    have "ticket_id t \<notin> ticket_id ` set (take k sel)" .
    from loop_lookup [OF st(1), of "ticket_id t" "ticket_envs e" 0 sel cfg "length sel" "fst ?pr" "[]" "[]",
        unfolded st(3), folded k_def, OF this]
    have "lookup (ticket_id t) (store s') = lookup (ticket_id t) (store s)"
      by (simp add: s'_def st(9) lk)
    with sel_lookup [OF ts] sel_in(2) [OF ts]
    show "status t = PENDING \<and> lookup (ticket_id t) (store s') = Some t" by simp
  qed
  show "\<forall>t \<in> set (take k sel).
           map_option status (lookup (ticket_id t) (store s')) \<in> {Some CLOSED, Some ERROR}"
    using lg by (simp add: s'_def st(9))
  show "\<exists>l. status_log s' = status_log s @ l
           \<and> (\<forall>mv \<in> set l. snd mv \<in> {(PENDING, WORKING), (WORKING, CLOSED), (WORKING, ERROR)})"
    using lg by (simp add: s'_def st(10) st(6))
qed


text \<open>
  C5, as the code has it. The store holds distinct ticket ids and a callback is
  registered. If a stop is requested while ticket \<open>j + 1\<close> of the selection is processed,
  and not before, then exactly the first \<open>j + 1\<close> tickets are resolved, each with a
  success or a failure outcome and a final status closed or error; the result has
  \<open>cancelled = true\<close>; the tickets after them are still pending and their records are
  the ones of the start of the run. A \<^verbatim>\<open>cancelled\<close> update is emitted exactly when a
  ticket is left: a stop that arrives during the last ticket ends the loop without one.
\<close>

theorem autopilot_cancellation:
  assumes "\<not> autopilotRunning s"
      and "distinct (map ticket_id (stored (store s)))"
      and "j < length (pendingTickets (stored (store s)))"
      and "\<not> stop_while_provisioning e"
      and "\<forall>m < j. \<not> stop_requested (ticket_envs e m)"
      and "stop_requested (ticket_envs e j)"
  shows "\<exists>r evs. fst (autopilotMode cfg True e s) = Inr r
      \<and> cancelled r
      \<and> mset (map tr_ticket (completed r @ failed r))
          = mset (take (Suc j) (pendingTickets (stored (store s))))
      \<and> (\<forall>x \<in> set (completed r). tr_success x) \<and> (\<forall>x \<in> set (failed r). \<not> tr_success x)
      \<and> events (snd (autopilotMode cfg True e s)) = events s @ evs
      \<and> processed evs = map (\<lambda>t. (ticket_id t, name t))
                           (take (Suc j) (pendingTickets (stored (store s))))
      \<and> (Cancelled \<in> set evs \<longleftrightarrow> Suc j < length (pendingTickets (stored (store s))))
      \<and> (\<forall>t \<in> set (take (Suc j) (pendingTickets (stored (store s)))).
            map_option status (lookup (ticket_id t) (store (snd (autopilotMode cfg True e s))))
              \<in> {Some CLOSED, Some ERROR})
      \<and> (\<forall>t \<in> set (drop (Suc j) (pendingTickets (stored (store s)))).
            status t = PENDING
            \<and> lookup (ticket_id t) (store (snd (autopilotMode cfg True e s))) = Some t)"
proof -
  let ?sel = "pendingTickets (stored (store s))"
  from assms(3) have ne: "?sel \<noteq> []" by auto
  have k: "attempts (ticket_envs e) (stop_while_provisioning e) 0 (length ?sel) = Suc j"
    using assms(3-6) by (intro attempts_stop_at) simp_all
  note sm = autopilot_run_summary [OF assms(1) ne assms(2), where callback = True and cfg = cfg
      and e = e, unfolded k]
  from sm(1) obtain r where r: "fst (autopilotMode cfg True e s) = Inr r"
    "cancelled r = (stop_while_provisioning e \<or> (\<exists>m < Suc j. stop_requested (ticket_envs e m)))"
    "mset (map tr_ticket (completed r @ failed r)) = mset (take (Suc j) ?sel)"
    "\<forall>x \<in> set (completed r). tr_success x" "\<forall>x \<in> set (failed r). \<not> tr_success x"
    by blast
  from r(2) assms(6) have c: "cancelled r" by auto
  from autopilot_processed [OF assms(1), of cfg e, unfolded k] ne
  obtain evs where evs: "events (snd (autopilotMode cfg True e s)) = events s @ evs"
    "processed evs = map (\<lambda>t. (ticket_id t, name t)) (take (Suc j) ?sel)"
    "Cancelled \<in> set evs \<longleftrightarrow> Suc j < length ?sel"
    by blast
  show ?thesis
    by (rule exI [of _ r], rule exI [of _ evs])
       (intro conjI r(1) c r(3) r(4) r(5) evs(1) evs(2) evs(3) sm(3) sm(2))
qed

theorem autopilot_cancellation_witness:
  "(\<exists>r. fst (autopilotMode ex_cfg True ex_run_stop ex_system2) = Inr r \<and> cancelled r
        \<and> mset (map tr_ticket (completed r @ failed r)) = {#ex_ticket#})
   \<and> Cancelled \<in> set (events (snd (autopilotMode ex_cfg True ex_run_stop ex_system2)))
   \<and> lookup ''T-2'' (store (snd (autopilotMode ex_cfg True ex_run_stop ex_system2)))
       = Some ex_ticket2"
proof -
  have a: "\<not> autopilotRunning ex_system2"
    "distinct (map ticket_id (stored (store ex_system2)))"
    "0 < length (pendingTickets (stored (store ex_system2)))"
    "\<not> stop_while_provisioning ex_run_stop"
    "\<forall>m < (0::nat). \<not> stop_requested (ticket_envs ex_run_stop m)"
    "stop_requested (ticket_envs ex_run_stop 0)"
    by (simp_all add: ex_pending2)
       (simp_all add: ex_system2_def ex_ticket_def ex_ticket2_def ex_run_stop_def)
  from autopilot_cancellation [OF a, of ex_cfg]
  obtain r evs where r: "fst (autopilotMode ex_cfg True ex_run_stop ex_system2) = Inr r"
      "cancelled r"
      "mset (map tr_ticket (completed r @ failed r))
          = mset (take (Suc 0) (pendingTickets (stored (store ex_system2))))"
      "events (snd (autopilotMode ex_cfg True ex_run_stop ex_system2)) = events ex_system2 @ evs"
      "Cancelled \<in> set evs \<longleftrightarrow> Suc 0 < length (pendingTickets (stored (store ex_system2)))"
      "\<forall>t \<in> set (drop (Suc 0) (pendingTickets (stored (store ex_system2)))).
            status t = PENDING
            \<and> lookup (ticket_id t) (store (snd (autopilotMode ex_cfg True ex_run_stop ex_system2))) = Some t"
    by blast
  from r(3) have m: "mset (map tr_ticket (completed r @ failed r)) = {#ex_ticket#}"
    by (simp add: ex_pending2)
  from r(4,5) have c: "Cancelled \<in> set (events (snd (autopilotMode ex_cfg True ex_run_stop ex_system2)))"
    by (simp add: ex_pending2)
  from r(6) have l: "lookup ''T-2'' (store (snd (autopilotMode ex_cfg True ex_run_stop ex_system2)))
       = Some ex_ticket2"
    by (simp add: ex_pending2) (simp add: ex_ticket2_def)
  have "\<exists>r. fst (autopilotMode ex_cfg True ex_run_stop ex_system2) = Inr r \<and> cancelled r
        \<and> mset (map tr_ticket (completed r @ failed r)) = {#ex_ticket#}"
    by (rule exI [of _ r]) (intro conjI r(1) r(2) m)
  then show ?thesis
    by (intro conjI c l)
qed

text \<open>
  The claim as stated fails for the last ticket: stop is requested while ticket 1 of 1
  is processed, the result says \<open>cancelled\<close>, and no \<^verbatim>\<open>cancelled\<close> update is emitted.
\<close>

theorem autopilot_stop_during_last_ticket:
  "(\<exists>r. fst (autopilotMode ex_cfg True ex_run_stop ex_system) = Inr r \<and> cancelled r)
   \<and> Cancelled \<notin> set (events (snd (autopilotMode ex_cfg True ex_run_stop ex_system)))
   \<and> stop_requested (ticket_envs ex_run_stop 0)
   \<and> length (pendingTickets (stored (store ex_system))) = 1"
proof -
  have p: "pendingTickets (stored (store ex_system)) = [ex_ticket]"
    by (simp add: ex_system_def ex_store_def pendingTickets_def ex_ticket_def)
  have a: "\<not> autopilotRunning ex_system" "pendingTickets (stored (store ex_system)) \<noteq> []"
    "distinct (map ticket_id (stored (store ex_system)))"
    by (simp_all add: p) (simp_all add: ex_system_def ex_store_def)
  have k: "attempts (ticket_envs ex_run_stop) (stop_while_provisioning ex_run_stop) 0
      (length [ex_ticket]) = 1"
    by (simp add: ex_run_stop_def ex_ticket_env_def)
  have sr: "stop_requested (ticket_envs ex_run_stop 0)"
    by (simp add: ex_run_stop_def)
  from autopilot_run_summary(1) [OF a, where callback = True and cfg = ex_cfg and e = ex_run_stop,
      unfolded p, unfolded k]
  have c: "\<exists>r. fst (autopilotMode ex_cfg True ex_run_stop ex_system) = Inr r \<and> cancelled r"
    using sr by auto
  from autopilot_processed [OF a(1), of ex_cfg ex_run_stop, unfolded p, unfolded k]
  obtain evs where evs: "events (snd (autopilotMode ex_cfg True ex_run_stop ex_system))
      = events ex_system @ evs" "Cancelled \<notin> set evs"
    by auto
  have "events ex_system = []" by (simp add: ex_system_def)
  with evs have n: "Cancelled \<notin> set (events (snd (autopilotMode ex_cfg True ex_run_stop ex_system)))"
    by simp
  have "length (pendingTickets (stored (store ex_system))) = 1" by (simp add: p)
  with c n sr show ?thesis by (intro conjI)
qed


section \<open>The status written by start, stop and autopilot\<close>

lemma getTicket_stored [simp]:
  "stored (snd (getTicket q f)) = stored f"
  "lookup j (snd (getTicket q f)) = lookup j f"
  by (simp_all add: getTicket_def split_beta lookup_def)

lemma getTicket_found:
  assumes "fst (getTicket q f) = Some t"
  shows "t \<in> set (stored f)"
  using assms
  by (auto simp: getTicket_def split_beta find_Some_iff)

lemma log_write:
  assumes "lookup i (store s) = Some t" and "u_status u = Some x"
  shows "status_log (Storage_updateTicket i u s) = status_log s @ [(i, status t, x)]"
    and "lookup i (store (Storage_updateTicket i u s)) = Some (spread t u)"
    and "status (spread t u) = x"
  using assms
  by (simp_all add: status_log_Storage_updateTicket lookup_updateTicket_same status_spread)

lemma status_log_analyze:
  assumes "lookup (ticket_id t) (store s) = Some t1"
  shows "status_log (analyzeTicketWithAI cfg t e s) = status_log s
       \<or> status_log (analyzeTicketWithAI cfg t e s)
            = status_log s @ [(ticket_id t, status t1, CLOSED)]"
proof -
  obtain result w' where r: "resolve cfg t
                  (Some \<lparr>skipValidation = Some False, cleanupOnError = Given True,
                         existingWorktree = None\<rparr>) (a_resolve e) (outside s) = (result, w')"
    by (cases "resolve cfg t
                  (Some \<lparr>skipValidation = Some False, cleanupOnError = Given True,
                         existingWorktree = None\<rparr>) (a_resolve e) (outside s)")
  have lk: "lookup (ticket_id t) (store (s\<lparr>outside := w'\<rparr>)) = Some t1"
    using assms by simp
  have "status_log (Storage_updateTicket (ticket_id t)
                      (no_updates\<lparr>u_summary := r_summary result, u_status := Some CLOSED,
                         u_closedAt := Some (a_closed_now e)\<rparr>) (s\<lparr>outside := w'\<rparr>))
          = status_log s @ [(ticket_id t, status t1, CLOSED)]"
    using log_write(1) [OF lk, of _ CLOSED] by simp
  then show ?thesis
    by (simp add: analyzeTicketWithAI_def r)
qed

lemma status_log_start_failed:
  assumes "lookup (ticket_id t) (store s) = Some t1"
  shows "status_log (start_failed t m s) = status_log s @ [(ticket_id t, status t1, ERROR)]"
  unfolding start_failed_def
  using log_write(1) [OF assms, of _ ERROR] by simp

text \<open>What \<open>start\<close> writes, for a ticket that is found and not working.\<close>

lemma start_writes:
  assumes lk: "lookup (ticket_id ticket) (store s0) = Some ticket"
  shows "\<exists>l. status_log (
     (case isGitRepo (isGitRepo_res e) w of (isGit, w1) \<Rightarrow>
          if \<not> isGit then
     (let s2 = Storage_updateTicket (ticket_id ticket)
                 (no_updates\<lparr>u_status := Some WORKING, u_startedAt := Some (start_now e)\<rparr>)
                 (s0\<lparr>outside := w1\<rparr>)
      in if copilot_available e then analyzeTicketWithAI cfg ticket e s2 else s2)
          else
     (let s2 = Storage_updateTicket (ticket_id ticket) (no_updates\<lparr>u_status := Some BRANCHING\<rparr>)
                 (s0\<lparr>outside := w1\<rparr>)
      in case pullDevelop cfg e (outside s2) of
           (Inl m, w3) \<Rightarrow> start_failed ticket m (s2\<lparr>outside := w3\<rparr>)
         | (Inr u, w3) \<Rightarrow>
     (case createBranch cfg (ticket_id ticket) (create_branch_res e) w3 of
        (Inl m, w4) \<Rightarrow> start_failed ticket m (s2\<lparr>outside := w4\<rparr>)
      | (Inr branchName, w4) \<Rightarrow>
     (let s3 = Storage_updateTicket (ticket_id ticket)
                 (no_updates\<lparr>u_status := Some WORKING, u_startedAt := Some (start_now e),
                    u_branch := Some branchName\<rparr>) (s2\<lparr>outside := w4\<rparr>)
      in if copilot_available e then analyzeTicketWithAI cfg ticket e s3 else s3)))))
     = status_log s0 @ l
   \<and> l \<in> {[(ticket_id ticket, status ticket, WORKING)],
          [(ticket_id ticket, status ticket, WORKING), (ticket_id ticket, WORKING, CLOSED)],
          [(ticket_id ticket, status ticket, BRANCHING), (ticket_id ticket, BRANCHING, ERROR)],
          [(ticket_id ticket, status ticket, BRANCHING), (ticket_id ticket, BRANCHING, WORKING)],
          [(ticket_id ticket, status ticket, BRANCHING), (ticket_id ticket, BRANCHING, WORKING),
           (ticket_id ticket, WORKING, CLOSED)]}"
proof (cases "isGitRepo_res e")
  case False
  let ?w1 = "perform (Status cwd) w"
  let ?u = "no_updates\<lparr>u_status := Some WORKING, u_startedAt := Some (start_now e)\<rparr>"
  let ?s2 = "Storage_updateTicket (ticket_id ticket) ?u (s0\<lparr>outside := ?w1\<rparr>)"
  have lk0: "lookup (ticket_id ticket) (store (s0\<lparr>outside := ?w1\<rparr>)) = Some ticket"
    using lk by simp
  have u: "u_status ?u = Some WORKING" by simp
  note w = log_write [OF lk0 u]
  have l2: "status_log ?s2 = status_log s0 @ [(ticket_id ticket, status ticket, WORKING)]"
    using w(1) by simp
  from status_log_analyze [OF w(2), of cfg e]
  have "status_log (analyzeTicketWithAI cfg ticket e ?s2) = status_log ?s2
      \<or> status_log (analyzeTicketWithAI cfg ticket e ?s2)
          = status_log ?s2 @ [(ticket_id ticket, WORKING, CLOSED)]"
    unfolding w(3) .
  then show ?thesis
    using False l2 by (auto simp: isGitRepo_def Let_def)
next
  case True
  let ?w1 = "perform (Status cwd) w"
  let ?u = "no_updates\<lparr>u_status := Some BRANCHING\<rparr>"
  let ?s2 = "Storage_updateTicket (ticket_id ticket) ?u (s0\<lparr>outside := ?w1\<rparr>)"
  have lk0: "lookup (ticket_id ticket) (store (s0\<lparr>outside := ?w1\<rparr>)) = Some ticket"
    using lk by simp
  have u: "u_status ?u = Some BRANCHING" by simp
  note w = log_write [OF lk0 u]
  have l2: "status_log ?s2 = status_log s0 @ [(ticket_id ticket, status ticket, BRANCHING)]"
    using w(1) by simp
  have failed: "status_log (start_failed ticket m (?s2\<lparr>outside := w'\<rparr>))
          = status_log s0 @ [(ticket_id ticket, status ticket, BRANCHING),
                             (ticket_id ticket, BRANCHING, ERROR)]" for m w'
  proof -
    have "lookup (ticket_id ticket) (store (?s2\<lparr>outside := w'\<rparr>)) = Some (spread ticket ?u)"
      using w(2) by simp
    from status_log_start_failed [OF this, of m] show ?thesis
      unfolding w(3) using l2 by simp
  qed
  have worked: "\<exists>l. status_log (let s3 = Storage_updateTicket (ticket_id ticket)
                 (no_updates\<lparr>u_status := Some WORKING, u_startedAt := Some (start_now e),
                    u_branch := Some b\<rparr>) (?s2\<lparr>outside := w'\<rparr>)
      in if copilot_available e then analyzeTicketWithAI cfg ticket e s3 else s3)
        = status_log s0 @ l
      \<and> l \<in> {[(ticket_id ticket, status ticket, BRANCHING), (ticket_id ticket, BRANCHING, WORKING)],
          [(ticket_id ticket, status ticket, BRANCHING), (ticket_id ticket, BRANCHING, WORKING),
           (ticket_id ticket, WORKING, CLOSED)]}" for b w'
  proof -
    let ?v = "no_updates\<lparr>u_status := Some WORKING, u_startedAt := Some (start_now e),
                    u_branch := Some b\<rparr>"
    let ?s3 = "Storage_updateTicket (ticket_id ticket) ?v (?s2\<lparr>outside := w'\<rparr>)"
    have lk2: "lookup (ticket_id ticket) (store (?s2\<lparr>outside := w'\<rparr>)) = Some (spread ticket ?u)"
      using w(2) by simp
    have v: "u_status ?v = Some WORKING" by simp
    note w3 = log_write [OF lk2 v]
    have l3: "status_log ?s3 = status_log s0 @ [(ticket_id ticket, status ticket, BRANCHING),
                 (ticket_id ticket, BRANCHING, WORKING)]"
      using w3(1) l2 unfolding w(3) by simp
    from status_log_analyze [OF w3(2), of cfg e]
    have "status_log (analyzeTicketWithAI cfg ticket e ?s3) = status_log ?s3
      \<or> status_log (analyzeTicketWithAI cfg ticket e ?s3)
          = status_log ?s3 @ [(ticket_id ticket, WORKING, CLOSED)]"
      unfolding w3(3) .
    then show ?thesis
      unfolding Let_def using l3 by auto
  qed
  obtain r3 w3 where pd: "pullDevelop cfg e (outside ?s2) = (r3, w3)"
    by (cases "pullDevelop cfg e (outside ?s2)")
  obtain r4 w4 where cb: "createBranch cfg (ticket_id ticket) (create_branch_res e) w3 = (r4, w4)"
    by (cases "createBranch cfg (ticket_id ticket) (create_branch_res e) w3")
  show ?thesis
  proof (cases r3)
    case (Inl m)
    have "status_log (start_failed ticket m (?s2\<lparr>outside := w3\<rparr>))
          = status_log s0 @ [(ticket_id ticket, status ticket, BRANCHING),
                             (ticket_id ticket, BRANCHING, ERROR)]"
      by (rule failed)
    then show ?thesis
      using True pd Inl by (simp add: isGitRepo_def Let_def)
  next
    case (Inr u3)
    show ?thesis
    proof (cases r4)
      case (Inl m)
      have "status_log (start_failed ticket m (?s2\<lparr>outside := w4\<rparr>))
          = status_log s0 @ [(ticket_id ticket, status ticket, BRANCHING),
                             (ticket_id ticket, BRANCHING, ERROR)]"
        by (rule failed)
      then show ?thesis
        using True pd cb Inl \<open>r3 = Inr u3\<close> by (simp add: isGitRepo_def Let_def)
    next
      case (Inr b)
      from worked [of b w4] obtain l where
        l: "status_log (let s3 = Storage_updateTicket (ticket_id ticket)
                 (no_updates\<lparr>u_status := Some WORKING, u_startedAt := Some (start_now e),
                    u_branch := Some b\<rparr>) (?s2\<lparr>outside := w4\<rparr>)
      in if copilot_available e then analyzeTicketWithAI cfg ticket e s3 else s3)
        = status_log s0 @ l"
        "l \<in> {[(ticket_id ticket, status ticket, BRANCHING), (ticket_id ticket, BRANCHING, WORKING)],
          [(ticket_id ticket, status ticket, BRANCHING), (ticket_id ticket, BRANCHING, WORKING),
           (ticket_id ticket, WORKING, CLOSED)]}"
        by blast
      show ?thesis
        apply (rule exI [of _ l])
        using True pd cb Inr \<open>r3 = Inr u3\<close> l
        apply (simp add: isGitRepo_def)
        done
    qed
  qed
qed


text \<open>
  The writes of \<^verbatim>\<open>start\<close>, in a store with distinct ids. Every write after the first
  follows an edge of the state machine. The first takes a ticket that is not working to
  branching or to working: that is an edge for a pending ticket, and need not be one for
  a ticket that is branching, stopped, closed or in error.
\<close>

lemma start_log:
  assumes "distinct (map ticket_id (stored (store s)))"
  shows "\<exists>l. status_log (start cfg q e s) = status_log s @ l
     \<and> (\<forall>mv \<in> set (take 1 l).
           spec_edge (fst (snd mv)) (snd (snd mv))
           \<or> (fst (snd mv) \<in> {BRANCHING, STOPPED, CLOSED, ERROR}
               \<and> snd (snd mv) \<in> {BRANCHING, WORKING}))
     \<and> (\<forall>mv \<in> set (drop 1 l). spec_edge (fst (snd mv)) (snd (snd mv)))"
proof (cases "nonempty q")
  case None
  then show ?thesis by (simp add: start_def)
next
  case (Some tid)
  show ?thesis
  proof (cases "fst (getTicket tid (store s))")
    case None
    with Some show ?thesis by (simp add: start_def split_beta)
  next
    case found: (Some ticket)
    from getTicket_found [OF found] have "ticket \<in> set (stored (store s))" .
    from lookup_distinct [OF assms this]
    have "lookup (ticket_id ticket) (store s) = Some ticket" .
    then have lk: "lookup (ticket_id ticket) (store (s\<lparr>store := snd (getTicket tid (store s))\<rparr>))
        = Some ticket"
      by simp
    show ?thesis
    proof (cases "status ticket = WORKING")
      case True
      with Some found show ?thesis by (simp add: start_def split_beta)
    next
      case False
      from start_writes [OF lk, where e = e and w = "outside s" and cfg = cfg]
      obtain l where l: "status_log (start cfg q e s) = status_log s @ l"
        "l \<in> {[(ticket_id ticket, status ticket, WORKING)],
          [(ticket_id ticket, status ticket, WORKING), (ticket_id ticket, WORKING, CLOSED)],
          [(ticket_id ticket, status ticket, BRANCHING), (ticket_id ticket, BRANCHING, ERROR)],
          [(ticket_id ticket, status ticket, BRANCHING), (ticket_id ticket, BRANCHING, WORKING)],
          [(ticket_id ticket, status ticket, BRANCHING), (ticket_id ticket, BRANCHING, WORKING),
           (ticket_id ticket, WORKING, CLOSED)]}"
        using Some found False by (auto simp: start_def split_beta)
      have first: "spec_edge (status ticket) b
           \<or> (status ticket \<in> {BRANCHING, STOPPED, CLOSED, ERROR} \<and> b \<in> {BRANCHING, WORKING})"
        if "b = BRANCHING \<or> b = WORKING" for b
        using that False by (cases "status ticket") (auto simp: spec_edge_def)
      have fixed: "spec_edge BRANCHING WORKING" "spec_edge BRANCHING ERROR"
        "spec_edge WORKING CLOSED"
        by (simp_all add: spec_edge_def)
      have "(\<forall>mv \<in> set (take 1 l).
           spec_edge (fst (snd mv)) (snd (snd mv))
           \<or> (fst (snd mv) \<in> {BRANCHING, STOPPED, CLOSED, ERROR}
               \<and> snd (snd mv) \<in> {BRANCHING, WORKING}))
        \<and> (\<forall>mv \<in> set (drop 1 l). spec_edge (fst (snd mv)) (snd (snd mv)))"
        using l(2) first [of WORKING] first [of BRANCHING] fixed
        by (elim insertE emptyE) simp_all
      with l(1) show ?thesis by blast
    qed
  qed
qed

text \<open>\<^verbatim>\<open>stop\<close> only writes working to stopped.\<close>

lemma stop_log:
  assumes "distinct (map ticket_id (stored (store s)))"
  shows "\<exists>l. status_log (stop cfg q e s) = status_log s @ l
     \<and> (\<forall>mv \<in> set l. snd mv = (WORKING, STOPPED))"
proof (cases "nonempty q")
  case None
  then show ?thesis by (simp add: stop_def)
next
  case (Some tid)
  show ?thesis
  proof (cases "fst (getTicket tid (store s))")
    case None
    with Some show ?thesis by (simp add: stop_def split_beta)
  next
    case found: (Some ticket)
    from getTicket_found [OF found] have "ticket \<in> set (stored (store s))" .
    from lookup_distinct [OF assms this]
    have lk0: "lookup (ticket_id ticket) (store s) = Some ticket" .
    show ?thesis
    proof (cases "status ticket = WORKING")
      case False
      with Some found show ?thesis by (simp add: stop_def split_beta)
    next
      case True
      obtain r w' where g: "stop_git cfg ticket e (outside s) = (r, w')"
        by (cases "stop_git cfg ticket e (outside s)")
      show ?thesis
      proof (cases r)
        case (Inl m)
        with Some found True g show ?thesis by (simp add: stop_def split_beta)
      next
        case (Inr u)
        let ?u = "no_updates\<lparr>u_status := Some STOPPED, u_stoppedAt := Some (stopped_now e)\<rparr>"
        have lk: "lookup (ticket_id ticket)
            (store (s\<lparr>store := snd (getTicket tid (store s)), outside := w'\<rparr>)) = Some ticket"
          using lk0 by simp
        have u: "u_status ?u = Some STOPPED" by simp
        from log_write(1) [OF lk u] True
        have "status_log (Storage_updateTicket (ticket_id ticket) ?u
                (s\<lparr>store := snd (getTicket tid (store s)), outside := w'\<rparr>))
              = status_log s @ [(ticket_id ticket, WORKING, STOPPED)]"
          by simp
        with Some found True g Inr show ?thesis by (simp add: stop_def split_beta)
      qed
    qed
  qed
qed

text \<open>
  An autopilot run only writes pending to working, working to closed and working to
  error.
\<close>

lemma autopilotMode_log:
  assumes "distinct (map ticket_id (stored (store s)))"
  shows "\<exists>l. status_log (snd (autopilotMode cfg callback e s)) = status_log s @ l
     \<and> (\<forall>mv \<in> set l. snd mv \<in> {(PENDING, WORKING), (WORKING, CLOSED), (WORKING, ERROR)})"
proof (cases "autopilotRunning s")
  case True
  then show ?thesis by (simp add: autopilotMode_def)
next
  case False
  show ?thesis
  proof (cases "pendingTickets (stored (store s)) = []")
    case True
    from autopilotMode_no_tickets(2) [OF False True] show ?thesis by simp
  next
    case ne: False
    from autopilot_run_summary(4) [OF False ne assms] show ?thesis .
  qed
qed

lemma ex_start:
  assumes "getTicket tid (store s) = (Some t, store s)"
      and "lookup (ticket_id t) (store s) = Some t"
      and "status t \<noteq> WORKING"
      and "tid \<noteq> []"
  shows "status_log (start cfg (Some tid) ex_start_env s)
           = status_log s @ [(ticket_id t, status t, BRANCHING), (ticket_id t, BRANCHING, WORKING)]"
    and "status_log (start cfg (Some tid) ex_start_no_git s)
           = status_log s @ [(ticket_id t, status t, WORKING)]"
    and "map_option status (lookup (ticket_id t) (store (start cfg (Some tid) ex_start_no_git s)))
           = Some WORKING"
  using assms
  by (simp_all add: start_def nonempty_def isGitRepo_def pullDevelop_def createBranch_def Let_def
      ex_start_env_def ex_start_no_git_def status_log_Storage_updateTicket
      lookup_updateTicket_same status_spread no_updates_def)

lemma ex_getTicket:
  "getTicket ''T-1'' (store ex_system) = (Some ex_ticket, store ex_system)"
  "lookup (ticket_id ex_ticket) (store ex_system) = Some ex_ticket"
  "getTicket ''T-1'' (store ex_system_closed) = (Some ex_closed_ticket, store ex_system_closed)"
  "lookup (ticket_id ex_closed_ticket) (store ex_system_closed) = Some ex_closed_ticket"
  by (simp_all add: getTicket_def getAllTickets_def getConfig_def ensureConfigExists_def
      toLowerCase_def lower_char_def upper_letters_def lower_letters_def ex_system_def ex_system_closed_def ex_store_def ex_ticket_def
      ex_closed_ticket_def lookup_def)

text \<open>
  C2. \<^verbatim>\<open>start\<close> refuses only a ticket that is working. Started outside a git
  repository, the closed ticket \<open>T-1\<close> goes from closed to working; started inside one,
  it goes from closed to branching and on to working. Neither closed to working nor
  closed to branching is an edge of the state machine.
\<close>

theorem start_reopens_closed_ticket:
  "map status (stored (store ex_system_closed)) = [CLOSED]
   \<and> status_log (start ex_cfg (Some ''T-1'') ex_start_no_git ex_system_closed)
       = [(''T-1'', CLOSED, WORKING)]
   \<and> map_option status
        (lookup ''T-1'' (store (start ex_cfg (Some ''T-1'') ex_start_no_git ex_system_closed)))
       = Some WORKING
   \<and> status_log (start ex_cfg (Some ''T-1'') ex_start_env ex_system_closed)
       = [(''T-1'', CLOSED, BRANCHING), (''T-1'', BRANCHING, WORKING)]
   \<and> \<not> spec_edge CLOSED WORKING \<and> \<not> spec_edge CLOSED BRANCHING"
proof -
  have n: "status ex_closed_ticket \<noteq> WORKING" "''T-1'' \<noteq> []"
    by (simp_all add: ex_closed_ticket_def)
  note st = ex_start [OF ex_getTicket(3) ex_getTicket(4) n, of ex_cfg]
  have "map status (stored (store ex_system_closed)) = [CLOSED]"
    by (simp add: ex_system_closed_def ex_closed_ticket_def)
  moreover from st(2)
  have "status_log (start ex_cfg (Some ''T-1'') ex_start_no_git ex_system_closed)
     = [(''T-1'', CLOSED, WORKING)]"
    by (simp add: ex_system_closed_def ex_system_def ex_closed_ticket_def ex_ticket_def)
  moreover from st(3)
  have "map_option status
        (lookup ''T-1'' (store (start ex_cfg (Some ''T-1'') ex_start_no_git ex_system_closed)))
       = Some WORKING"
    by (simp add: ex_closed_ticket_def ex_ticket_def)
  moreover from st(1)
  have "status_log (start ex_cfg (Some ''T-1'') ex_start_env ex_system_closed)
       = [(''T-1'', CLOSED, BRANCHING), (''T-1'', BRANCHING, WORKING)]"
    by (simp add: ex_system_closed_def ex_system_def ex_closed_ticket_def ex_ticket_def)
  moreover have "\<not> spec_edge CLOSED WORKING" "\<not> spec_edge CLOSED BRANCHING"
    by (simp_all add: spec_edge_def)
  ultimately show ?thesis by (intro conjI)
qed

section \<open>A second autopilot request\<close>

lemma new_Commands_fields [simp]:
  "autopilotRunning (new_Commands f w) = False"
  "store (new_Commands f w) = f" "outside (new_Commands f w) = w"
  "events (new_Commands f w) = []" "status_log (new_Commands f w) = []"
  by (simp_all add: new_Commands_def)

text \<open>
  The handler asks a \<^verbatim>\<open>Commands\<close> instance it has just built whether a run is in
  progress: it never answers 409.
\<close>

lemma post_autopilot_never_conflict:
  "fst (post_autopilot cfg e f w) \<noteq> Conflict m"
  by (simp add: post_autopilot_def getAutopilotStatus_def Let_def split_beta)

lemma post_autopilot_starts:
  assumes "pendingTickets (stored f) \<noteq> []"
  shows "post_autopilot cfg e f w =
           (AutopilotStarted (length (pendingTickets (stored f))),
            snd (autopilotMode cfg True e (new_Commands (snd (getAllTickets f)) w)))"
proof -
  have len: "length (filter (\<lambda>t. status t = PENDING) (stored f)) = length (pendingTickets (stored f))"
    by (simp add: pendingTickets_def sort_with_sort_key)
  with assms have "filter (\<lambda>t. status t = PENDING) (stored f) \<noteq> []"
    by auto
  moreover note len
  moreover have "(new_Commands f w)\<lparr>store := snd (getAllTickets f)\<rparr>
      = new_Commands (snd (getAllTickets f)) w"
    by (simp add: new_Commands_def)
  ultimately show ?thesis
    using assms
    by (simp add: post_autopilot_def getAutopilotStatus_def Let_def split_beta)
qed

lemma ex_running_pending:
  "pendingTickets (stored (store ex_running)) = [ex_ticket, ex_ticket2]"
  "snd (getAllTickets (store ex_running)) = store ex_running"
  "distinct (map ticket_id (stored (store ex_running)))"
  by (simp_all add: ex_running_def pendingTickets_def by_createdAt_def ex_ticket_def ex_ticket2_def
      getAllTickets_def getConfig_def ensureConfigExists_def)

text \<open>
  C8. A run is in progress on one \<^verbatim>\<open>Commands\<close> instance: it is the state of
  \<^verbatim>\<open>autopilotMode\<close> on \<open>ex_system2\<close> after its \<^verbatim>\<open>started\<close> update, with \<open>T-1\<close> and
  \<open>T-2\<close> pending. A second \<^verbatim>\<open>POST /api/tickets/autopilot\<close> arrives. The handler
  builds a new \<^verbatim>\<open>Commands\<close>, whose flag is not set: the answer is not 409 but the
  start of a run for two tickets, \<^verbatim>\<open>autopilotMode\<close> does not throw,
  \<^verbatim>\<open>processing\<close> updates are sent for \<open>T-1\<close> and \<open>T-2\<close>, and both records end closed
  or in error.
\<close>

theorem second_autopilot_request_is_not_refused:
  "autopilotRunning ex_running
   \<and> ex_running =
       sendUpdate (Started 2 [(''T-1'', ''T-1''), (''T-2'', ''T-2'')])
         (ex_system2\<lparr>autopilotRunning := True, autopilotShouldStop := False,
                      autopilotCallback := True\<rparr>)
   \<and> fst (post_autopilot ex_cfg ex_run (store ex_running) (outside ex_running)) = AutopilotStarted 2
   \<and> fst (autopilotMode ex_cfg True ex_run (new_Commands (store ex_running) (outside ex_running)))
       \<noteq> Inl ''Autopilot is already running''
   \<and> processed (events (snd (post_autopilot ex_cfg ex_run (store ex_running) (outside ex_running))))
       = [(''T-1'', ''T-1''), (''T-2'', ''T-2'')]
   \<and> map_option status
        (lookup ''T-1''
           (store (snd (post_autopilot ex_cfg ex_run (store ex_running) (outside ex_running)))))
       \<in> {Some CLOSED, Some ERROR}
   \<and> map_option status
        (lookup ''T-2''
           (store (snd (post_autopilot ex_cfg ex_run (store ex_running) (outside ex_running)))))
       \<in> {Some CLOSED, Some ERROR}"
proof -
  let ?c = "new_Commands (store ex_running) (outside ex_running)"
  have run: "autopilotRunning ex_running" by (simp add: ex_running_def)
  have mid: "ex_running =
       sendUpdate (Started 2 [(''T-1'', ''T-1''), (''T-2'', ''T-2'')])
         (ex_system2\<lparr>autopilotRunning := True, autopilotShouldStop := False,
                      autopilotCallback := True\<rparr>)"
    by (simp add: ex_running_def ex_system2_def sendUpdate_def)
  have p: "pendingTickets (stored (store ?c)) = [ex_ticket, ex_ticket2]"
    by (simp add: ex_running_pending)
  have a: "\<not> autopilotRunning ?c" "pendingTickets (stored (store ?c)) \<noteq> []"
    "distinct (map ticket_id (stored (store ?c)))"
    by (simp_all add: ex_running_pending)
  have k: "attempts (ticket_envs ex_run) (stop_while_provisioning ex_run) 0
             (length [ex_ticket, ex_ticket2]) = 2"
    by (simp add: ex_run_def ex_ticket_env_def)
  have post: "post_autopilot ex_cfg ex_run (store ex_running) (outside ex_running)
      = (AutopilotStarted 2, snd (autopilotMode ex_cfg True ex_run ?c))"
    using post_autopilot_starts [of "store ex_running" ex_cfg ex_run "outside ex_running"]
    by (simp add: ex_running_pending)
  from autopilot_run_summary(1) [OF a, where callback = True and cfg = ex_cfg and e = ex_run]
  obtain r where "fst (autopilotMode ex_cfg True ex_run ?c) = Inr r" by blast
  then have nr: "fst (autopilotMode ex_cfg True ex_run ?c) \<noteq> Inl ''Autopilot is already running''"
    by simp
  from autopilot_processed [OF a(1), of ex_cfg ex_run, unfolded p, unfolded k]
  obtain evs where evs: "events (snd (autopilotMode ex_cfg True ex_run ?c)) = events ?c @ evs"
      "processed evs = map (\<lambda>t. (ticket_id t, name t)) (take 2 [ex_ticket, ex_ticket2])"
    by blast
  then have pe: "processed (events (snd (autopilotMode ex_cfg True ex_run ?c)))
      = [(''T-1'', ''T-1''), (''T-2'', ''T-2'')]"
    by (simp add: ex_ticket_def ex_ticket2_def)
  from autopilot_run_summary(3) [OF a, where callback = True and cfg = ex_cfg and e = ex_run,
      unfolded p, unfolded k]
  have st: "map_option status (lookup ''T-1'' (store (snd (autopilotMode ex_cfg True ex_run ?c))))
      \<in> {Some CLOSED, Some ERROR}"
    "map_option status (lookup ''T-2'' (store (snd (autopilotMode ex_cfg True ex_run ?c))))
      \<in> {Some CLOSED, Some ERROR}"
    by (simp_all add: ex_ticket_def ex_ticket2_def)
  show ?thesis
    unfolding post using run mid nr pe st by simp
qed

end
